theory Spec2Isabelle
  imports Main "HOL-Library.Word" "HOL-Library.AList" "HOL-Library.Multiset"
begin

section \<open>Treasury ledger ingestion: a model of listenNewBlocks.py\<close>

text \<open>
  The listener polls a chain node for transfer logs, keeps those that touch the treasury
  address, completes each with its transaction's method selector and its block's
  timestamp, and upserts the resulting documents into a MongoDB collection. The model
  follows the source function by function. Python integers are \<open>int\<close>, byte strings
  (\<open>HexBytes\<close>) are lists of 8-bit words, dicts that are iterated are association lists in
  insertion order, and every exception is a value \<open>Inl e\<close> of a sum type. Console
  output (\<open>print\<close>) is left out.
\<close>

subsection \<open>Exceptions\<close>

datatype exn =
    IndexError
  | KeyError
  | ValueError
  | TypeError
  | AttributeError
  | RuntimeError
  | External string  \<comment> \<open>raised by the node, by web3 or by pymongo\<close>

subsection \<open>Byte strings and their hex rendering\<close>

type_synonym byte = "8 word"
type_synonym hexbytes = "byte list"

definition hexdigit :: "nat \<Rightarrow> char" where
  "hexdigit n = ''0123456789abcdef'' ! n"

definition hex_byte :: "byte \<Rightarrow> string" where
  "hex_byte b = [hexdigit (unat b div 16), hexdigit (unat b mod 16)]"

text \<open>\<open>HexBytes.hex()\<close> of the web3 release the listener runs on: the digits after \<open>0x\<close>.\<close>

definition hex :: "hexbytes \<Rightarrow> string" where
  "hex bs = ''0x'' @ concat (map hex_byte bs)"

definition is_hexdigit :: "char \<Rightarrow> bool" where
  "is_hexdigit c = (c \<in> set ''0123456789abcdefABCDEF'')"

definition hexval :: "char \<Rightarrow> int" where
  "hexval c =
     (if c \<in> set ''0123456789'' then int (of_char c) - 48
      else if c \<in> set ''abcdef'' then int (of_char c) - 87
      else int (of_char c) - 55)"

text \<open>Python slices: \<open>s[-n:]\<close> and \<open>s.startswith(p)\<close>.\<close>

definition last_chars :: "nat \<Rightarrow> 'a list \<Rightarrow> 'a list" where
  "last_chars n s = drop (length s - n) s"

definition startswith :: "string \<Rightarrow> string \<Rightarrow> bool" where
  "startswith s p = (take (length p) s = p)"

text \<open>
  \<open>int(s, 16)\<close> on a string without sign, blanks or underscores (the strings
  \<open>HexBytes.hex()\<close> gives have none): an optional \<open>0x\<close>, then at least one hex digit;
  anything else is a \<open>ValueError\<close>.
\<close>

definition int16 :: "string \<Rightarrow> exn + int" where
  "int16 s =
     (let ds = (if startswith s ''0x'' \<or> startswith s ''0X'' then drop 2 s else s)
      in if ds = [] \<or> \<not> list_all is_hexdigit ds then Inl ValueError
         else Inr (foldl (\<lambda>acc c. 16 * acc + hexval c) 0 ds))"

text \<open>\<open>str(n)\<close> of a Python integer.\<close>

fun str_nat :: "nat \<Rightarrow> string" where
  "str_nat n =
     (if n < 10 then [''0123456789'' ! n]
      else str_nat (n div 10) @ [''0123456789'' ! (n mod 10)])"

declare str_nat.simps [simp del]

definition str_int :: "int \<Rightarrow> string" where
  "str_int i = (if i < 0 then ''-'' @ str_nat (nat (- i)) else str_nat (nat i))"

subsection \<open>Constants of the module\<close>

definition BATCH_SIZE :: int where "BATCH_SIZE = 100"
definition CONFIRMATIONS :: int where "CONFIRMATIONS = 1"
definition POLL_INTERVAL :: int where "POLL_INTERVAL = 20"
definition RETRY_DELAY :: int where "RETRY_DELAY = 10"
definition CYCLE_DELAY :: int where "CYCLE_DELAY = 60"

definition TRANSFER_TOPIC :: string where
  "TRANSFER_TOPIC = ''0xddf252ad1be2c89b69c2b068fc378daa952ba7f163c4a11628f55a4df523b3ef''"

definition NATIVE_RON_TRANSFER_TOPIC :: string where
  "NATIVE_RON_TRANSFER_TOPIC = ''0x3d0ce9bfc3ed7d6862dbb28b2dea94561fe714a1b4d019aa8af39730d1ad7c3d''"

definition ZERO_ADDRESS :: string where
  "ZERO_ADDRESS = ''0x0000000000000000000000000000000000000000''"

subsection \<open>safe\_selector\<close>

text \<open>
  What \<open>tx_details.get("input", "")\<close> can hold: the transaction's input as \<open>HexBytes\<close>,
  a string (the default \<open>""\<close> when the key is absent), or \<open>None\<close>. Only \<open>HexBytes\<close>
  has a \<open>hex\<close> attribute.
\<close>

datatype py_value = HexBytesV hexbytes | StrV string | NoneV

definition safe_selector :: "py_value \<Rightarrow> string" where
  "safe_selector v =
     (let input_data = (case v of HexBytesV b \<Rightarrow> StrV (hex b) | _ \<Rightarrow> v)
      in case input_data of
           StrV s \<Rightarrow>
             if s = [] then ''0x''
             else if startswith s ''0x'' \<and> 10 \<le> length s then take 10 s
             else ''0x''
         | _ \<Rightarrow> ''0x'')"

subsection \<open>Data from the node and documents of the ledger\<close>

record log =
  log_transactionHash :: hexbytes
  log_logIndex :: int
  log_blockNumber :: int
  log_address :: string
  log_topics :: "hexbytes list"
  log_data :: hexbytes

text \<open>A transaction: its \<open>input\<close> key, \<open>None\<close> when the key is absent.\<close>

record tx =
  tx_input :: "py_value option"

record block =
  block_timestamp :: int

datatype item_type = erc20_log | native_ron_log

record item =
  item_type :: item_type
  item_data :: log

record doc =
  tokenAddress :: string
  fromAddress :: string
  toAddress :: string
  mongo_id :: string
  txHash :: string
  blockNumber :: int
  timestamp :: int
  logIndex :: int
  eventTopic :: string
  amountRaw :: string
  amount :: string
  isOutgoing :: bool
  selector :: string  \<comment> \<open>the key "method"\<close>

text \<open>\<open>UpdateOne({"_id": k}, {"$set": doc}, upsert=b)\<close>.\<close>

datatype update_one = UpdateOne string doc bool

subsection \<open>The outside world\<close>

text \<open>
  The node, the database and the clock are state transformers on a world \<open>'w\<close>; each
  call returns its result or the exception it raised, and the world after the call.
  \<open>Web3.to_checksum_address\<close> is a library function (EIP-55) that raises on a string
  that is not an address.
\<close>

record 'w env =
  to_checksum_address :: "string \<Rightarrow> exn + string"
  w3_is_connected :: "'w \<Rightarrow> bool \<times> 'w"
  eth_block_number :: "'w \<Rightarrow> (exn + int) \<times> 'w"
  eth_get_logs :: "int \<Rightarrow> int \<Rightarrow> string list \<Rightarrow> 'w \<Rightarrow> (exn + log list) \<times> 'w"
  eth_get_transaction :: "string \<Rightarrow> 'w \<Rightarrow> (exn + tx) \<times> 'w"
  eth_get_block :: "int \<Rightarrow> 'w \<Rightarrow> (exn + block) \<times> 'w"
  MONGO_URI :: "string option"
  mongo_ping :: "'w \<Rightarrow> (exn + unit) \<times> 'w"
  coll_find_one_last :: "'w \<Rightarrow> (exn + int option) \<times> 'w"
  coll_bulk_write :: "update_one list \<Rightarrow> 'w \<Rightarrow> (exn + unit) \<times> 'w"
  time_sleep :: "int \<Rightarrow> 'w \<Rightarrow> 'w"

text \<open>
  The treasury list is built when the module loads; were the conversion to raise there,
  nothing below would run, and the model has an empty list.
\<close>

definition TREASURY_ADDRESSES :: "'w env \<Rightarrow> string list" where
  "TREASURY_ADDRESSES env =
     (case to_checksum_address env ''0x245db945c485b68fDc429e4F7085a1761Aa4d45d'' of
        Inr a \<Rightarrow> [a]
      | Inl e \<Rightarrow> [])"

definition TREASURY_SET :: "'w env \<Rightarrow> string set" where
  "TREASURY_SET env = set (TREASURY_ADDRESSES env)"

subsection \<open>with\_retries\<close>

text \<open>
  \<open>for attempt in range(1, retries + 1)\<close>, by recursion on the attempts left after the
  current one. With no attempt to make the loop body never runs and the function
  returns \<open>None\<close>.
\<close>

fun with_retries_from :: "'w env \<Rightarrow> ('w \<Rightarrow> (exn + 'a) \<times> 'w) \<Rightarrow> int \<Rightarrow> nat \<Rightarrow> 'w \<Rightarrow> (exn + 'a option) \<times> 'w" where
  "with_retries_from env fn delay 0 w = (Inr None, w)"
| "with_retries_from env fn delay (Suc left) w =
     (case fn w of
        (Inr v, w') \<Rightarrow> (Inr (Some v), w')
      | (Inl e, w') \<Rightarrow>
          if left = 0 then (Inl e, w')
          else with_retries_from env fn delay left (time_sleep env delay w'))"

definition with_retries :: "'w env \<Rightarrow> ('w \<Rightarrow> (exn + 'a) \<times> 'w) \<Rightarrow> nat \<Rightarrow> int \<Rightarrow> 'w \<Rightarrow> (exn + 'a option) \<times> 'w" where
  "with_retries env fn retries delay w = with_retries_from env fn delay retries w"

text \<open>The three call sites, each with \<open>retries=3, delay=5\<close>.\<close>

definition fetch_logs :: "'w env \<Rightarrow> int \<Rightarrow> int \<Rightarrow> 'w \<Rightarrow> (exn + log list option) \<times> 'w" where
  "fetch_logs env batch_start batch_end =
     with_retries env
       (eth_get_logs env batch_start batch_end [TRANSFER_TOPIC, NATIVE_RON_TRANSFER_TOPIC]) 3 5"

definition fetch_transaction :: "'w env \<Rightarrow> string \<Rightarrow> 'w \<Rightarrow> (exn + tx option) \<times> 'w" where
  "fetch_transaction env tx_hash = with_retries env (eth_get_transaction env tx_hash) 3 5"

definition fetch_block :: "'w env \<Rightarrow> int \<Rightarrow> 'w \<Rightarrow> (exn + block option) \<times> 'w" where
  "fetch_block env bn = with_retries env (eth_get_block env bn) 3 5"

subsection \<open>Classifying a log\<close>

text \<open>\<open>Web3.to_checksum_address("0x" + log["topics"][i].hex()[-40:])\<close>.\<close>

definition topic_address :: "'w env \<Rightarrow> log \<Rightarrow> nat \<Rightarrow> exn + string" where
  "topic_address env l i =
     (if i < length (log_topics l)
      then to_checksum_address env (''0x'' @ last_chars 40 (hex (log_topics l ! i)))
      else Inl IndexError)"

definition doc_id :: "log \<Rightarrow> string" where
  "doc_id l = hex (log_transactionHash l) @ ''-'' @ str_int (log_logIndex l)"

text \<open>
  The body of \<open>for log in logs\<close>: the entry to store in \<open>docs_to_upsert\<close>, if any. An
  exception here is not inside any \<open>try\<close> of the batch.
\<close>

definition classify_log :: "'w env \<Rightarrow> log \<Rightarrow> exn + (string \<times> item) option" where
  "classify_log env l =
     (if log_topics l = [] then Inl IndexError
      else
        let log_topic = hex (log_topics l ! 0) in
        if log_topic = TRANSFER_TOPIC then
          (case topic_address env l 1 of
             Inl e \<Rightarrow> Inl e
           | Inr frm \<Rightarrow>
               (case topic_address env l 2 of
                  Inl e \<Rightarrow> Inl e
                | Inr to \<Rightarrow>
                    if (frm \<in> TREASURY_SET env \<or> to \<in> TREASURY_SET env)
                       \<and> \<not> (frm \<in> TREASURY_SET env \<and> to \<in> TREASURY_SET env)
                    then Inr (Some (doc_id l, \<lparr>item_type = erc20_log, item_data = l\<rparr>))
                    else Inr None))
        else if log_topic = NATIVE_RON_TRANSFER_TOPIC then
          (case to_checksum_address env (log_address l) of
             Inl e \<Rightarrow> Inl e
           | Inr log_emitter \<Rightarrow>
               if log_emitter \<in> TREASURY_SET env
               then Inr (Some (doc_id l, \<lparr>item_type = native_ron_log, item_data = l\<rparr>))
               else Inr None)
        else Inr None)"

fun classify_logs :: "'w env \<Rightarrow> log list \<Rightarrow> (string \<times> item) list \<Rightarrow> exn + (string \<times> item) list" where
  "classify_logs env [] docs_to_upsert = Inr docs_to_upsert"
| "classify_logs env (l # ls) docs_to_upsert =
     (case classify_log env l of
        Inl e \<Rightarrow> Inl e
      | Inr None \<Rightarrow> classify_logs env ls docs_to_upsert
      | Inr (Some (k, it)) \<Rightarrow> classify_logs env ls (AList.update k it docs_to_upsert))"

subsection \<open>Building the document of an accepted log\<close>

text \<open>
  The addresses, the direction and the amount of the two kinds of item, in the order the
  source computes them.
\<close>

definition item_fields :: "'w env \<Rightarrow> item \<Rightarrow> exn + (string \<times> string \<times> string \<times> bool \<times> int)" where
  "item_fields env it =
     (let l = item_data it in
      case item_type it of
        erc20_log \<Rightarrow>
          (case topic_address env l 1 of
             Inl e \<Rightarrow> Inl e
           | Inr frm \<Rightarrow>
          (case topic_address env l 2 of
             Inl e \<Rightarrow> Inl e
           | Inr to \<Rightarrow>
          (let is_out = (frm \<in> TREASURY_SET env) in
           case int16 (hex (log_data l)) of
             Inl e \<Rightarrow> Inl e
           | Inr amt_raw \<Rightarrow>
          (case to_checksum_address env (log_address l) of
             Inl e \<Rightarrow> Inl e
           | Inr token \<Rightarrow> Inr (token, frm, to, is_out, amt_raw)))))
      | native_ron_log \<Rightarrow>
          (case to_checksum_address env (log_address l) of
             Inl e \<Rightarrow> Inl e
           | Inr to_addr \<Rightarrow>
          (case int16 (hex (log_data l)) of
             Inl e \<Rightarrow> Inl e
           | Inr amt_raw \<Rightarrow>
          (case topic_address env l 1 of
             Inl e \<Rightarrow> Inl e
           | Inr from_addr \<Rightarrow> Inr (ZERO_ADDRESS, from_addr, to_addr, False, amt_raw)))))"

text \<open>
  \<open>doc.update({...})\<close>: \<open>tx_details\<close> is what \<open>with_retries\<close> returned, so \<open>None\<close> has no
  \<open>get\<close>; the first topic is read once more for \<open>eventTopic\<close>.
\<close>

definition build_doc :: "'w env \<Rightarrow> item \<Rightarrow> tx option \<Rightarrow> int \<Rightarrow> exn + doc" where
  "build_doc env it tx_details ts =
     (let l = item_data it in
      case item_fields env it of
        Inl e \<Rightarrow> Inl e
      | Inr (token, frm, to, is_out, amt_raw) \<Rightarrow>
          if log_topics l = [] then Inl IndexError
          else
            (case tx_details of
               None \<Rightarrow> Inl AttributeError
             | Some t \<Rightarrow>
                 Inr \<lparr>tokenAddress = token,
                      fromAddress = frm,
                      toAddress = to,
                      mongo_id = str_int (log_blockNumber l) @ ''-'' @ str_int (log_logIndex l),
                      txHash = hex (log_transactionHash l),
                      blockNumber = log_blockNumber l,
                      timestamp = ts,
                      logIndex = log_logIndex l,
                      eventTopic = hex (log_topics l ! 0),
                      amountRaw = str_int amt_raw,
                      amount = str_int (if is_out then - amt_raw else amt_raw),
                      isOutgoing = is_out,
                      selector = safe_selector (case tx_input t of None \<Rightarrow> StrV [] | Some v \<Rightarrow> v)\<rparr>))"

subsection \<open>Enriching the accepted logs\<close>

record state =
  start_block :: int
  block_ts_cache :: "int \<rightharpoonup> int"

text \<open>
  The \<open>try\<close> block of one item: the transaction, the block timestamp through the cache,
  the document, the upsert operation. The cache keeps a timestamp it has stored even
  when a later step raises.
\<close>

definition enrich_item :: "'w env \<Rightarrow> item \<Rightarrow> (int \<rightharpoonup> int) \<Rightarrow> 'w \<Rightarrow> (exn + update_one) \<times> (int \<rightharpoonup> int) \<times> 'w" where
  "enrich_item env it cache w =
     (let l = item_data it; tx_hash = hex (log_transactionHash l) in
      case fetch_transaction env tx_hash w of
        (Inl e, w1) \<Rightarrow> (Inl e, cache, w1)
      | (Inr tx_details, w1) \<Rightarrow>
          (let bn = log_blockNumber l in
           case (if cache bn = None
                 then (case fetch_block env bn w1 of
                         (Inl e, w2) \<Rightarrow> (Inl e, cache, w2)
                       | (Inr None, w2) \<Rightarrow> (Inl TypeError, cache, w2)
                       | (Inr (Some b), w2) \<Rightarrow> (Inr (), cache(bn \<mapsto> block_timestamp b), w2))
                 else (Inr (), cache, w1)) of
             (Inl e, cache', w2) \<Rightarrow> (Inl e, cache', w2)
           | (Inr u, cache', w2) \<Rightarrow>
               (case cache' bn of
                  None \<Rightarrow> (Inl KeyError, cache', w2)
                | Some ts \<Rightarrow>
                    (case build_doc env it tx_details ts of
                       Inl e \<Rightarrow> (Inl e, cache', w2)
                     | Inr d \<Rightarrow> (Inr (UpdateOne (mongo_id d) d True), cache', w2)))))"

text \<open>
  \<open>for item in docs_to_upsert.values()\<close>. A dict iterator remembers the size of the
  dict when it was made (\<open>used\<close>) and every step first compares it with the current
  size: a dict that has grown makes the step raise \<open>RuntimeError\<close>, outside the \<open>try\<close> of
  the loop body. The handler of the body stores the item again under the bare
  transaction hash.
\<close>

function enrich_items :: "'w env \<Rightarrow> nat \<Rightarrow> nat \<Rightarrow> (string \<times> item) list \<Rightarrow> update_one list \<Rightarrow> (int \<rightharpoonup> int) \<Rightarrow> 'w \<Rightarrow> (exn + update_one list) \<times> (int \<rightharpoonup> int) \<times> 'w" where
  "enrich_items env used i docs_to_upsert ops cache w =
     (if length docs_to_upsert \<noteq> used then (Inl RuntimeError, cache, w)
      else if length docs_to_upsert \<le> i then (Inr ops, cache, w)
      else
        let it = snd (docs_to_upsert ! i) in
        case enrich_item env it cache w of
          (Inr op, cache', w') \<Rightarrow>
            enrich_items env used (Suc i) docs_to_upsert (ops @ [op]) cache' w'
        | (Inl e, cache', w') \<Rightarrow>
            enrich_items env used (Suc i)
              (AList.update (hex (log_transactionHash (item_data it))) it docs_to_upsert)
              ops cache' w')"
  by pat_completeness auto
termination
  by (relation "measure (\<lambda>(env, used, i, docs, ops, cache, w).
        if length docs \<noteq> used then 0 else Suc (used - i))") auto

declare enrich_items.simps [simp del]

subsection \<open>Writing a batch and moving the cursor\<close>

text \<open>\<open>if ops:\<close> and its \<open>try\<close>: the cursor moves only after a bulk write that returned.\<close>

definition commit :: "'w env \<Rightarrow> update_one list \<Rightarrow> int \<Rightarrow> state \<Rightarrow> 'w \<Rightarrow> state \<times> 'w" where
  "commit env ops batch_end st w =
     (if ops = [] then (st, w)
      else case coll_bulk_write env ops w of
             (Inr u, w') \<Rightarrow> (st\<lparr>start_block := batch_end + 1\<rparr>, w')
           | (Inl e, w') \<Rightarrow> (st, w'))"

text \<open>
  The body of the loop over the batches. \<open>Inl e\<close> is an exception that leaves the loop;
  the variables of the enclosing function keep what was assigned before it.
\<close>

definition process_batch :: "'w env \<Rightarrow> int \<Rightarrow> int \<Rightarrow> state \<Rightarrow> 'w \<Rightarrow> (exn + unit) \<times> state \<times> 'w" where
  "process_batch env batch_start batch_end st w =
     (case fetch_logs env batch_start batch_end w of
        (Inl e, w1) \<Rightarrow> (Inr (), st, w1)
      | (Inr None, w1) \<Rightarrow> (Inl TypeError, st, w1)
      | (Inr (Some logs), w1) \<Rightarrow>
          (case classify_logs env logs [] of
             Inl e \<Rightarrow> (Inl e, st, w1)
           | Inr docs_to_upsert \<Rightarrow>
               if docs_to_upsert = [] then (Inr (), st, w1)
               else
                 (case enrich_items env (length docs_to_upsert) 0 docs_to_upsert []
                         (block_ts_cache st) w1 of
                    (Inl e, cache', w2) \<Rightarrow> (Inl e, st\<lparr>block_ts_cache := cache'\<rparr>, w2)
                  | (Inr ops, cache', w2) \<Rightarrow>
                      (let (st', w3) = commit env ops batch_end (st\<lparr>block_ts_cache := cache'\<rparr>) w2
                       in (Inr (), st', w3)))))"

text \<open>\<open>range(start_block, effective_end + 1, BATCH_SIZE)\<close>, computed once per cycle.\<close>

function batch_starts :: "int \<Rightarrow> int \<Rightarrow> int list" where
  "batch_starts s effective_end =
     (if effective_end < s then [] else s # batch_starts (s + BATCH_SIZE) effective_end)"
  by pat_completeness auto
termination
  by (relation "measure (\<lambda>(s, e). nat (e + 1 - s))") (auto simp: BATCH_SIZE_def)

declare batch_starts.simps [simp del]

fun run_batches :: "'w env \<Rightarrow> int \<Rightarrow> int list \<Rightarrow> state \<Rightarrow> 'w \<Rightarrow> (exn + unit) \<times> state \<times> 'w" where
  "run_batches env effective_end [] st w = (Inr (), st, w)"
| "run_batches env effective_end (batch_start # rest) st w =
     (let batch_end = min (batch_start + BATCH_SIZE - 1) effective_end in
      case process_batch env batch_start batch_end st w of
        (Inl e, st', w') \<Rightarrow> (Inl e, st', w')
      | (Inr u, st', w') \<Rightarrow> run_batches env effective_end rest st' w')"

text \<open>One pass of \<open>while True\<close>, with its \<open>except Exception\<close>.\<close>

definition cycle :: "'w env \<Rightarrow> state \<Rightarrow> 'w \<Rightarrow> state \<times> 'w" where
  "cycle env st w =
     (case eth_block_number env w of
        (Inl e, w1) \<Rightarrow> (st, time_sleep env RETRY_DELAY w1)
      | (Inr head_block, w1) \<Rightarrow>
          (let effective_end = max 0 (head_block - CONFIRMATIONS) in
           if effective_end < start_block st then (st, time_sleep env POLL_INTERVAL w1)
           else
             (case run_batches env effective_end
                     (batch_starts (start_block st) effective_end) st w1 of
                (Inl e, st', w2) \<Rightarrow> (st', time_sleep env RETRY_DELAY w2)
              | (Inr u, st', w2) \<Rightarrow> (st', time_sleep env CYCLE_DELAY w2))))"

fun cycles :: "nat \<Rightarrow> 'w env \<Rightarrow> state \<Rightarrow> 'w \<Rightarrow> state \<times> 'w" where
  "cycles 0 env st w = (st, w)"
| "cycles (Suc n) env st w = (case cycle env st w of (st', w') \<Rightarrow> cycles n env st' w')"

subsection \<open>Start of the process\<close>

text \<open>
  The connection checks, then the resume point: the \<open>blockNumber\<close> of the document
  \<open>find_one\<close> returns under a descending sort, plus one, or the head of the chain when
  the collection gave none.
\<close>

definition startup :: "'w env \<Rightarrow> 'w \<Rightarrow> (exn + state) \<times> 'w" where
  "startup env w =
     (case w3_is_connected env w of
        (False, w1) \<Rightarrow> (Inl (External ''Failed to connect to Ronin node''), w1)
      | (True, w1) \<Rightarrow>
     (case eth_block_number env w1 of
        (Inl e, w2) \<Rightarrow> (Inl e, w2)
      | (Inr head, w2) \<Rightarrow>
     (if MONGO_URI env = None \<or> MONGO_URI env = Some [] then (Inl (External ''MONGO_URI not set''), w2)
      else
     (case mongo_ping env w2 of
        (Inl e, w3) \<Rightarrow> (Inl e, w3)
      | (Inr u, w3) \<Rightarrow>
     (case coll_find_one_last env w3 of
        (Inl e, w4) \<Rightarrow> (Inl e, w4)
      | (Inr (Some last_block), w4) \<Rightarrow>
          (Inr \<lparr>start_block = last_block + 1, block_ts_cache = Map.empty\<rparr>, w4)
      | (Inr None, w4) \<Rightarrow>
          (case eth_block_number env w4 of
             (Inl e, w5) \<Rightarrow> (Inl e, w5)
           | (Inr head', w5) \<Rightarrow>
               (Inr \<lparr>start_block = head', block_ts_cache = Map.empty\<rparr>, w5)))))))"

subsection \<open>The collection\<close>

text \<open>
  MongoDB's side of the two calls the listener makes, on a collection held as the list of
  its documents. \<open>find_one\<close> with \<open>sort=[("blockNumber", -1)]\<close> returns the first document
  of the collection sorted by descending block number; the projection keeps that number.
  An \<open>UpdateOne\<close> with \<open>$set\<close> and \<open>upsert\<close> overwrites the fields of the first document
  whose \<open>_id\<close> matches, or inserts the document under that \<open>_id\<close>.
\<close>

type_synonym collection = "doc list"

definition find_one_last :: "collection \<Rightarrow> int option" where
  "find_one_last coll =
     (case sort_key (\<lambda>d. - blockNumber d) coll of [] \<Rightarrow> None | d # ds \<Rightarrow> Some (blockNumber d))"

fun update_one_apply :: "update_one \<Rightarrow> collection \<Rightarrow> collection" where
  "update_one_apply (UpdateOne k d upsert) [] = (if upsert then [d\<lparr>mongo_id := k\<rparr>] else [])"
| "update_one_apply (UpdateOne k d upsert) (x # xs) =
     (if mongo_id x = k then d\<lparr>mongo_id := k\<rparr> # xs
      else x # update_one_apply (UpdateOne k d upsert) xs)"

definition bulk_write_apply :: "update_one list \<Rightarrow> collection \<Rightarrow> collection" where
  "bulk_write_apply ops coll = foldl (\<lambda>c u. update_one_apply u c) coll ops"

subsection \<open>Reference definitions\<close>

text \<open>The unsigned big-endian value of a byte string.\<close>

definition be_int :: "hexbytes \<Rightarrow> int" where
  "be_int bs = foldl (\<lambda>acc b. 256 * acc + uint b) 0 bs"

text \<open>
  The retry policy in the words of the specification: attempt, catch, sleep, retry, up to
  three attempts with a fixed delay; the third failure propagates.
\<close>

definition three_attempts :: "'w env \<Rightarrow> int \<Rightarrow> ('w \<Rightarrow> (exn + 'a) \<times> 'w) \<Rightarrow> 'w \<Rightarrow> (exn + 'a option) \<times> 'w" where
  "three_attempts env delay fn w =
     (case fn w of
        (Inr v, w1) \<Rightarrow> (Inr (Some v), w1)
      | (Inl e1, w1) \<Rightarrow>
     (case fn (time_sleep env delay w1) of
        (Inr v, w2) \<Rightarrow> (Inr (Some v), w2)
      | (Inl e2, w2) \<Rightarrow>
     (case fn (time_sleep env delay w2) of
        (Inr v, w3) \<Rightarrow> (Inr (Some v), w3)
      | (Inl e3, w3) \<Rightarrow> (Inl e3, w3))))"

subsection \<open>A node and a database to run the listener against\<close>

text \<open>
  A chain with fixed contents, a collection, and scripts of faults: each attempt of a
  retried node call takes the next entry of \<open>rpc_faults\<close> and raises when it is
  \<open>True\<close>, each bulk write takes the next entry of \<open>write_faults\<close>; an empty script
  means no fault. A bulk write that raises has written nothing. Sleeping is recorded.
\<close>

record chain =
  chain_head :: int
  chain_logs :: "log list"
  chain_txs :: "(string \<times> tx) list"
  chain_blocks :: "(int \<times> block) list"

record world =
  ledger :: collection
  rpc_faults :: "bool list"
  write_faults :: "bool list"
  slept :: "int list"

definition rpc_attempt :: "(exn + 'a) \<Rightarrow> world \<Rightarrow> (exn + 'a) \<times> world" where
  "rpc_attempt answer w =
     (case rpc_faults w of
        [] \<Rightarrow> (answer, w)
      | f # fs \<Rightarrow> (if f then Inl (External ''rpc'') else answer, w\<lparr>rpc_faults := fs\<rparr>))"

definition lower_char :: "char \<Rightarrow> char" where
  "lower_char c = (case map_of (zip ''ABCDEFX'' ''abcdefx'') c of Some l \<Rightarrow> l | None \<Rightarrow> c)"

text \<open>
  The \<open>to_checksum_address\<close> of this environment. Like the library it accepts every
  spelling of an address, with the prefix \<open>0x\<close> or \<open>0X\<close> or without prefix and with
  hex letters of either case, raises \<open>ValueError\<close> on any other string, and gives two
  strings the same result exactly when they spell the same address. The library returns
  the EIP-55 spelling, in which some hex letters are capitals according to a Keccak hash
  of the address; this environment has no hash function and returns the spelling with
  small letters. The listener only compares the results with each other and stores them.
\<close>

definition sim_checksum :: "string \<Rightarrow> exn + string" where
  "sim_checksum s =
     (let h = map lower_char s;
          digits = (if take 2 h = ''0x'' then drop 2 h else h)
      in if length digits = 40 \<and> list_all is_hexdigit digits
         then Inr (''0x'' @ digits) else Inl ValueError)"

definition sim_get_logs :: "chain \<Rightarrow> int \<Rightarrow> int \<Rightarrow> string list \<Rightarrow> log list" where
  "sim_get_logs c from_block to_block topics0 =
     filter (\<lambda>l. from_block \<le> log_blockNumber l \<and> log_blockNumber l \<le> to_block
                \<and> log_topics l \<noteq> [] \<and> hex (log_topics l ! 0) \<in> set topics0)
       (chain_logs c)"

definition sim_bulk_write :: "update_one list \<Rightarrow> world \<Rightarrow> (exn + unit) \<times> world" where
  "sim_bulk_write ops w =
     (case write_faults w of
        [] \<Rightarrow> (Inr (), w\<lparr>ledger := bulk_write_apply ops (ledger w)\<rparr>)
      | f # fs \<Rightarrow>
          if f then (Inl (External ''bulk write''), w\<lparr>write_faults := fs\<rparr>)
          else (Inr (), w\<lparr>ledger := bulk_write_apply ops (ledger w), write_faults := fs\<rparr>))"

definition sim_env :: "chain \<Rightarrow> world env" where
  "sim_env c =
     \<lparr>to_checksum_address = sim_checksum,
      w3_is_connected = (\<lambda>w. (True, w)),
      eth_block_number = (\<lambda>w. (Inr (chain_head c), w)),
      eth_get_logs = (\<lambda>a b ts. rpc_attempt (Inr (sim_get_logs c a b ts))),
      eth_get_transaction =
        (\<lambda>h. rpc_attempt (case map_of (chain_txs c) h of
                             None \<Rightarrow> Inl (External ''transaction not found'')
                           | Some t \<Rightarrow> Inr t)),
      eth_get_block =
        (\<lambda>n. rpc_attempt (case map_of (chain_blocks c) n of
                             None \<Rightarrow> Inl (External ''block not found'')
                           | Some b \<Rightarrow> Inr b)),
      MONGO_URI = Some ''mongodb://localhost'',
      mongo_ping = (\<lambda>w. (Inr (), w)),
      coll_find_one_last = (\<lambda>w. (Inr (find_one_last (ledger w)), w)),
      coll_bulk_write = sim_bulk_write,
      time_sleep = (\<lambda>d w. w\<lparr>slept := slept w @ [d]\<rparr>)\<rparr>"

text \<open>The timestamps of a cache are those of the chain.\<close>

definition cache_ok :: "chain \<Rightarrow> (int \<rightharpoonup> int) \<Rightarrow> bool" where
  "cache_ok c cache =
     (\<forall>n ts. cache n = Some ts \<longrightarrow> (\<exists>b. map_of (chain_blocks c) n = Some b \<and> block_timestamp b = ts))"

subsection \<open>Example data\<close>

definition transfer_topic_bytes :: hexbytes where
  "transfer_topic_bytes =
     [0xDD, 0xF2, 0x52, 0xAD, 0x1B, 0xE2, 0xC8, 0x9B, 0x69, 0xC2, 0xB0, 0x68, 0xFC, 0x37,
      0x8D, 0xAA, 0x95, 0x2B, 0xA7, 0xF1, 0x63, 0xC4, 0xA1, 0x16, 0x28, 0xF5, 0x5A, 0x4D,
      0xF5, 0x23, 0xB3, 0xEF]"

definition native_topic_bytes :: hexbytes where
  "native_topic_bytes =
     [0x3D, 0x0C, 0xE9, 0xBF, 0xC3, 0xED, 0x7D, 0x68, 0x62, 0xDB, 0xB2, 0x8B, 0x2D, 0xEA,
      0x94, 0x56, 0x1F, 0xE7, 0x14, 0xA1, 0xB4, 0xD0, 0x19, 0xAA, 0x8A, 0xF3, 0x97, 0x30,
      0xD1, 0xAD, 0x7C, 0x3D]"

definition treasury_word :: hexbytes where
  "treasury_word =
     [0x00, 0x00, 0x00, 0x00, 0x00, 0x00, 0x00, 0x00, 0x00, 0x00, 0x00, 0x00, 0x24, 0x5D,
      0xB9, 0x45, 0xC4, 0x85, 0xB6, 0x8F, 0xDC, 0x42, 0x9E, 0x4F, 0x70, 0x85, 0xA1, 0x76,
      0x1A, 0xA4, 0xD4, 0x5D]"

definition other_word :: hexbytes where
  "other_word =
     [0x00, 0x00, 0x00, 0x00, 0x00, 0x00, 0x00, 0x00, 0x00, 0x00, 0x00, 0x00, 0x11, 0x11,
      0x11, 0x11, 0x11, 0x11, 0x11, 0x11, 0x11, 0x11, 0x11, 0x11, 0x11, 0x11, 0x11, 0x11,
      0x11, 0x11, 0x11, 0x11]"

definition amount_1000 :: hexbytes where
  "amount_1000 =
     [0x00, 0x00, 0x00, 0x00, 0x00, 0x00, 0x00, 0x00, 0x00, 0x00, 0x00, 0x00, 0x00, 0x00,
      0x00, 0x00, 0x00, 0x00, 0x00, 0x00, 0x00, 0x00, 0x00, 0x00, 0x00, 0x00, 0x00, 0x00,
      0x00, 0x00, 0x03, 0xE8]"

definition tx_hash_a :: hexbytes where "tx_hash_a = [0xAA, 0x01]"
definition tx_hash_b :: hexbytes where "tx_hash_b = [0xBB, 0x02]"
definition tx_hash_c :: hexbytes where "tx_hash_c = [0xCC, 0x03]"

definition token_address :: string where
  "token_address = ''0x97a9107C1793BC407d6F527b77e7fff4D812bece''"

text \<open>An ERC-20 transfer of 1000 units out of the treasury, in block 104.\<close>

definition log_out :: log where
  "log_out =
     \<lparr>log_transactionHash = tx_hash_a, log_logIndex = 0, log_blockNumber = 104,
      log_address = token_address,
      log_topics = [transfer_topic_bytes, treasury_word, other_word],
      log_data = amount_1000\<rparr>"

text \<open>An ERC-20 transfer of 1000 units into the treasury, in block 250.\<close>

definition log_in :: log where
  "log_in =
     \<lparr>log_transactionHash = tx_hash_b, log_logIndex = 3, log_blockNumber = 250,
      log_address = token_address,
      log_topics = [transfer_topic_bytes, other_word, treasury_word],
      log_data = amount_1000\<rparr>"

text \<open>
  An ERC-721 transfer into the treasury, in block 104: the same event signature, the
  token id as a fourth topic, no data.
\<close>

definition log_nft :: log where
  "log_nft =
     \<lparr>log_transactionHash = tx_hash_c, log_logIndex = 1, log_blockNumber = 104,
      log_address = token_address,
      log_topics = [transfer_topic_bytes, other_word, treasury_word, amount_1000],
      log_data = []\<rparr>"

text \<open>A native-asset transfer log emitted by the treasury address, in block 104.\<close>

definition log_native :: log where
  "log_native =
     \<lparr>log_transactionHash = tx_hash_b, log_logIndex = 2, log_blockNumber = 104,
      log_address = ''0x245db945c485b68fDc429e4F7085a1761Aa4d45d'',
      log_topics = [native_topic_bytes, other_word],
      log_data = amount_1000\<rparr>"

definition tx_call :: tx where
  "tx_call = \<lparr>tx_input = Some (HexBytesV [0xA9, 0x05, 0x9C, 0xBB, 0x00, 0x01])\<rparr>"

definition example_txs :: "(string \<times> tx) list" where
  "example_txs =
     [(hex tx_hash_a, tx_call), (hex tx_hash_b, tx_call), (hex tx_hash_c, tx_call)]"

definition example_blocks :: "(int \<times> block) list" where
  "example_blocks =
     [(104, \<lparr>block_timestamp = 1700000000\<rparr>), (250, \<lparr>block_timestamp = 1700000438\<rparr>)]"

text \<open>The end-to-end scenario: head 105, one outgoing transfer in block 104.\<close>

definition chain0 :: chain where
  "chain0 =
     \<lparr>chain_head = 105, chain_logs = [log_out], chain_txs = example_txs,
      chain_blocks = example_blocks\<rparr>"

definition world0 :: world where
  "world0 = \<lparr>ledger = [], rpc_faults = [], write_faults = [], slept = []\<rparr>"

definition state0 :: "int \<Rightarrow> state" where
  "state0 b = \<lparr>start_block = b, block_ts_cache = Map.empty\<rparr>"

text \<open>The documents the listener builds from the example logs.\<close>

definition doc_out :: doc where
  "doc_out =
     \<lparr>tokenAddress = ''0x97a9107c1793bc407d6f527b77e7fff4d812bece'',
      fromAddress = ''0x245db945c485b68fdc429e4f7085a1761aa4d45d'',
      toAddress = ''0x1111111111111111111111111111111111111111'',
      mongo_id = ''104-0'', txHash = ''0xaa01'', blockNumber = 104,
      timestamp = 1700000000, logIndex = 0,
      eventTopic = ''0xddf252ad1be2c89b69c2b068fc378daa952ba7f163c4a11628f55a4df523b3ef'',
      amountRaw = ''1000'', amount = ''-1000'', isOutgoing = True,
      selector = ''0xa9059cbb''\<rparr>"

definition doc_native :: doc where
  "doc_native =
     \<lparr>tokenAddress = ''0x0000000000000000000000000000000000000000'',
      fromAddress = ''0x1111111111111111111111111111111111111111'',
      toAddress = ''0x245db945c485b68fdc429e4f7085a1761aa4d45d'',
      mongo_id = ''104-2'', txHash = ''0xbb02'', blockNumber = 104,
      timestamp = 1700000000, logIndex = 2,
      eventTopic = ''0x3d0ce9bfc3ed7d6862dbb28b2dea94561fe714a1b4d019aa8af39730d1ad7c3d'',
      amountRaw = ''1000'', amount = ''1000'', isOutgoing = False,
      selector = ''0xa9059cbb''\<rparr>"

definition doc_in :: doc where
  "doc_in =
     \<lparr>tokenAddress = ''0x97a9107c1793bc407d6f527b77e7fff4d812bece'',
      fromAddress = ''0x1111111111111111111111111111111111111111'',
      toAddress = ''0x245db945c485b68fdc429e4f7085a1761aa4d45d'',
      mongo_id = ''250-3'', txHash = ''0xbb02'', blockNumber = 250,
      timestamp = 1700000438, logIndex = 3,
      eventTopic = ''0xddf252ad1be2c89b69c2b068fc378daa952ba7f163c4a11628f55a4df523b3ef'',
      amountRaw = ''1000'', amount = ''1000'', isOutgoing = False,
      selector = ''0xa9059cbb''\<rparr>"

text \<open>An ERC-20 transfer between two addresses outside the treasury, in block 150.\<close>

definition log_other :: log where
  "log_other =
     \<lparr>log_transactionHash = tx_hash_c, log_logIndex = 5, log_blockNumber = 150,
      log_address = token_address,
      log_topics = [transfer_topic_bytes, other_word, other_word],
      log_data = amount_1000\<rparr>"

text \<open>Block 104 holds the ERC-721 transfer and then the outgoing ERC-20 transfer.\<close>

definition chain_nft :: chain where
  "chain_nft =
     \<lparr>chain_head = 105, chain_logs = [log_nft, log_out], chain_txs = example_txs,
      chain_blocks = example_blocks\<rparr>"

text \<open>
  Head 300: the confirmed range from block 100 is the two batches 100 to 199 and 200 to
  299, with the outgoing transfer in the first and the incoming transfer in the second.
\<close>

definition chain_two :: chain where
  "chain_two =
     \<lparr>chain_head = 300, chain_logs = [log_out, log_other, log_in], chain_txs = example_txs,
      chain_blocks = example_blocks\<rparr>"

text \<open>Head 300, nothing for the treasury before block 250.\<close>

definition chain_quiet :: chain where
  "chain_quiet =
     \<lparr>chain_head = 300, chain_logs = [log_other, log_in], chain_txs = example_txs,
      chain_blocks = example_blocks\<rparr>"

text \<open>The operation that the data of the chain gives for an item of the batch map.\<close>

definition chain_op :: "chain \<Rightarrow> item \<Rightarrow> update_one option" where
  "chain_op c it =
     (case map_of (chain_txs c) (hex (log_transactionHash (item_data it))) of
        None \<Rightarrow> None
      | Some t \<Rightarrow>
          (case map_of (chain_blocks c) (log_blockNumber (item_data it)) of
             None \<Rightarrow> None
           | Some b \<Rightarrow>
               (case build_doc (sim_env c) it (Some t) (block_timestamp b) of
                  Inl e \<Rightarrow> None
                | Inr d \<Rightarrow> Some (UpdateOne (mongo_id d) d True))))"

text \<open>The document that a list of operations writes last under each key.\<close>

definition last_write :: "update_one list \<Rightarrow> (string \<rightharpoonup> doc)" where
  "last_write ops = foldl (\<lambda>m u. case u of UpdateOne k d b \<Rightarrow> m(k \<mapsto> d)) Map.empty ops"

text \<open>An operation as the listener builds it: the filter is the \<open>_id\<close> of the document.\<close>

definition keyed :: "update_one \<Rightarrow> bool" where
  "keyed u = (case u of UpdateOne k d b \<Rightarrow> k = mongo_id d \<and> b)"

text \<open>The \<open>_id\<close> of the record of a log: \<open>f"{log['blockNumber']}-{log['logIndex']}"\<close>.\<close>

definition record_id :: "log \<Rightarrow> string" where
  "record_id l = str_int (log_blockNumber l) @ ''-'' @ str_int (log_logIndex l)"

text \<open>Head 105, and block 104 holds only the ERC-721 transfer into the treasury.\<close>

definition chain_721 :: chain where
  "chain_721 =
     \<lparr>chain_head = 105, chain_logs = [log_nft], chain_txs = example_txs,
      chain_blocks = example_blocks\<rparr>"

text \<open>
  Head 105, block 104 holds only the native transfer emitted by the treasury, and the node
  does not find its transaction.
\<close>

definition chain_lag :: chain where
  "chain_lag =
     \<lparr>chain_head = 105, chain_logs = [log_native], chain_txs = [],
      chain_blocks = example_blocks\<rparr>"

text \<open>Head 105, block 104 holds only the native transfer emitted by the treasury.\<close>

definition chain_native :: chain where
  "chain_native =
     \<lparr>chain_head = 105, chain_logs = [log_native], chain_txs = example_txs,
      chain_blocks = example_blocks\<rparr>"

section \<open>Properties\<close>

subsection \<open>Hex strings and decimal strings\<close>

lemma nat_lt16_cases: "n < 16 \<Longrightarrow> n \<in> {0,1,2,3,4,5,6,7,8,9,10,11,12,13,14,15::nat}"
  by simp arith

lemma hexval_hexdigit: "n < 16 \<Longrightarrow> hexval (hexdigit n) = int n"
  by (drule nat_lt16_cases) (auto simp: hexval_def hexdigit_def)

lemma is_hexdigit_hexdigit: "n < 16 \<Longrightarrow> is_hexdigit (hexdigit n)"
  by (drule nat_lt16_cases) (auto simp: is_hexdigit_def hexdigit_def)

lemma hexdigit_not_dash: "n < 16 \<Longrightarrow> hexdigit n \<noteq> CHR ''-''"
  by (drule nat_lt16_cases) (auto simp: hexdigit_def)

lemma unat_byte_div16: "unat (b::byte) div 16 < 16"
proof -
  have "unat b < 256" using unsigned_less [of b] by simp
  then show ?thesis by simp
qed

lemma hex_byte_digits: "list_all is_hexdigit (hex_byte b)"
  by (simp add: hex_byte_def is_hexdigit_hexdigit unat_byte_div16)

lemma hex_digits: "list_all is_hexdigit (concat (map hex_byte bs))"
  by (induction bs) (simp_all add: hex_byte_digits)

lemma length_hex_digits: "length (concat (map hex_byte bs)) = 2 * length bs"
  by (induction bs) (simp_all add: hex_byte_def)

lemma foldl_hex_byte:
  "foldl (\<lambda>acc c. 16 * acc + hexval c) a (hex_byte b) = 256 * a + uint b"
proof -
  have "int (unat b div 16) * 16 + int (unat b mod 16) = int (unat b)"
    by (metis of_nat_add of_nat_mult of_nat_numeral div_mult_mod_eq)
  then show ?thesis
    by (simp add: hex_byte_def hexval_hexdigit unat_byte_div16)
qed

lemma foldl_hex_digits:
  "foldl (\<lambda>acc c. 16 * acc + hexval c) a (concat (map hex_byte bs))
     = foldl (\<lambda>acc b. 256 * acc + uint b) a bs"
  by (induction bs arbitrary: a) (simp_all add: foldl_hex_byte)

lemma int16_hex: "int16 (hex bs) = (if bs = [] then Inl ValueError else Inr (be_int bs))"
proof (cases "bs = []")
  case True
  then show ?thesis by (simp add: int16_def hex_def startswith_def)
next
  case False
  then have ne: "concat (map hex_byte bs) \<noteq> []"
    by (cases bs) (simp_all add: hex_byte_def)
  have pre: "startswith (hex bs) ''0x''" and dr: "drop 2 (hex bs) = concat (map hex_byte bs)"
    by (simp_all add: hex_def startswith_def)
  show ?thesis
    using False ne by (simp add: int16_def pre dr hex_digits foldl_hex_digits be_int_def)
qed

lemma be_int_nonneg_aux: "0 \<le> a \<Longrightarrow> 0 \<le> foldl (\<lambda>acc b. 256 * acc + uint (b::byte)) a bs"
  by (induction bs arbitrary: a) simp_all

lemma be_int_nonneg: "0 \<le> be_int bs"
  by (simp add: be_int_def be_int_nonneg_aux)

lemma str_nat_digits: "set (str_nat n) \<subseteq> set ''0123456789''"
proof (induction n rule: str_nat.induct)
  case (1 n)
  have d: "\<And>k::nat. k < 10 \<Longrightarrow> ''0123456789'' ! k \<in> set ''0123456789''"
    by (rule nth_mem) simp
  show ?case
  proof (cases "n < 10")
    case True
    then show ?thesis using d [of n] by (subst str_nat.simps) simp
  next
    case False
    then show ?thesis using 1 d [of "n mod 10"] by (subst str_nat.simps) simp
  qed
qed


lemma with_retries_3: "with_retries env fn 3 d w = three_attempts env d fn w"
  by (simp add: with_retries_def three_attempts_def numeral_3_eq_3
      split: prod.splits sum.splits)

text \<open>
  C9. The three retried node calls, \<open>get_logs\<close>, \<open>get_transaction\<close> and \<open>get_block\<close>,
  are the one policy of three attempts five seconds apart: the result of the first
  attempt that succeeds is returned with no further attempt, and the exception of the
  third failed attempt is the exception of the call.
\<close>

theorem retry_policy:
  "fetch_logs env a b = three_attempts env 5 (eth_get_logs env a b [TRANSFER_TOPIC, NATIVE_RON_TRANSFER_TOPIC])
   \<and> fetch_transaction env h = three_attempts env 5 (eth_get_transaction env h)
   \<and> fetch_block env n = three_attempts env 5 (eth_get_block env n)"
  by (simp add: fetch_logs_def fetch_transaction_def fetch_block_def with_retries_3 fun_eq_iff)

lemma hex_take10:
  "4 \<le> length b \<Longrightarrow> take 10 (hex b) = ''0x'' @ concat (map hex_byte (take 4 b))"
proof -
  assume "4 \<le> length b"
  then obtain b0 b1 b2 b3 r where "b = b0 # b1 # b2 # b3 # r"
    by (cases b; cases "tl b"; cases "tl (tl b)"; cases "tl (tl (tl b))") auto
  then show ?thesis by (simp add: hex_def hex_byte_def)
qed

lemma length_hex: "length (hex b) = 2 + 2 * length b"
  by (simp add: hex_def length_hex_digits)

lemma safe_selector_bytes:
  "safe_selector (HexBytesV b) =
     (if 4 \<le> length b then ''0x'' @ concat (map hex_byte (take 4 b)) else ''0x'')"
proof -
  have "startswith (hex b) ''0x''" "hex b \<noteq> []"
    by (simp_all add: startswith_def hex_def)
  then show ?thesis
    by (simp add: safe_selector_def length_hex hex_take10)
qed

lemma build_doc_method:
  "build_doc env it (Some t) ts = Inr d \<Longrightarrow>
     selector d = safe_selector (case tx_input t of None \<Rightarrow> StrV [] | Some v \<Rightarrow> v)"
  by (auto simp: build_doc_def Let_def split: sum.splits prod.splits if_splits)

text \<open>
  C8. The method of a record is \<open>safe_selector\<close> of the transaction's input. On an
  input of at least four bytes it is \<open>0x\<close> and the eight hex digits of the first four
  bytes; on a shorter input, on the default \<open>""\<close> of an absent input and on \<open>None\<close> it
  is \<open>0x\<close>. The function has no failing branch.
\<close>

theorem selector_of_input:
  assumes "build_doc env it (Some t) ts = Inr d"
  shows "selector d = safe_selector (case tx_input t of None \<Rightarrow> StrV [] | Some v \<Rightarrow> v)
   \<and> safe_selector (HexBytesV b) =
       (if 4 \<le> length b then ''0x'' @ concat (map hex_byte (take 4 b)) else ''0x'')
   \<and> length (concat (map hex_byte (take 4 b))) = 2 * min 4 (length b)
   \<and> list_all is_hexdigit (concat (map hex_byte (take 4 b)))
   \<and> safe_selector (StrV []) = ''0x''
   \<and> safe_selector NoneV = ''0x''"
proof -
  have "safe_selector (StrV []) = ''0x''" "safe_selector NoneV = ''0x''"
    by (simp_all add: safe_selector_def)
  then show ?thesis
    using build_doc_method [OF assms]
    by (simp add: safe_selector_bytes hex_digits length_hex_digits min_def)
qed

theorem selector_of_input_witness:
  "build_doc (sim_env chain0) \<lparr>item_type = erc20_log, item_data = log_out\<rparr> (Some tx_call) 1700000000
     = Inr doc_out
   \<and> selector doc_out = ''0xa9059cbb''
   \<and> safe_selector (HexBytesV [0xA9, 0x05]) = ''0x''"
proof -
  have h: "build_doc (sim_env chain0) \<lparr>item_type = erc20_log, item_data = log_out\<rparr> (Some tx_call)
             1700000000 = Inr doc_out"
    by code_simp
  have "selector doc_out = safe_selector (HexBytesV [0xA9, 0x05, 0x9C, 0xBB, 0x00, 0x01])"
    and "safe_selector (HexBytesV [0xA9, 0x05]) = ''0x''"
    using selector_of_input [OF h, of "[0xA9, 0x05]"] by (simp_all add: tx_call_def)
  moreover have "safe_selector (HexBytesV [0xA9, 0x05, 0x9C, 0xBB, 0x00, 0x01]) = ''0xa9059cbb''"
    by code_simp
  ultimately show ?thesis using h by simp
qed

subsection \<open>Classification and records\<close>

lemma drop_hex_digits:
  "drop (2 * k) (concat (map hex_byte bs)) = concat (map hex_byte (drop k bs))"
proof (induction bs arbitrary: k)
  case Nil
  then show ?case by simp
next
  case (Cons b bs)
  show ?case
  proof (cases k)
    case 0
    then show ?thesis by simp
  next
    case (Suc j)
    then show ?thesis using Cons [of j] by (simp add: hex_byte_def)
  qed
qed

lemma low_20_bytes:
  assumes "20 \<le> length t"
  shows "''0x'' @ last_chars 40 (hex t) = hex (last_chars 20 t)"
proof -
  have "length (hex t) - 40 = 2 + 2 * (length t - 20)"
    using assms by (simp add: length_hex)
  then have "last_chars 40 (hex t) = drop (2 * (length t - 20)) (concat (map hex_byte t))"
    by (simp add: last_chars_def hex_def)
  then show ?thesis
    by (simp add: drop_hex_digits last_chars_def hex_def)
qed

lemma topic_address_low:
  "i < length (log_topics l) \<Longrightarrow> 20 \<le> length (log_topics l ! i) \<Longrightarrow>
     topic_address env l i = to_checksum_address env (hex (last_chars 20 (log_topics l ! i)))"
  using low_20_bytes [of "log_topics l ! i"] by (simp add: topic_address_def)

lemma topics_differ: "NATIVE_RON_TRANSFER_TOPIC \<noteq> TRANSFER_TOPIC"
  by (simp add: NATIVE_RON_TRANSFER_TOPIC_def TRANSFER_TOPIC_def)

lemma classify_erc20:
  assumes "log_topics l \<noteq> []" and "hex (log_topics l ! 0) = TRANSFER_TOPIC"
    and "topic_address env l 1 = Inr frm" and "topic_address env l 2 = Inr to"
  shows "classify_log env l =
           (if (frm \<in> TREASURY_SET env) \<noteq> (to \<in> TREASURY_SET env)
            then Inr (Some (doc_id l, \<lparr>item_type = erc20_log, item_data = l\<rparr>))
            else Inr None)"
  using assms by (auto simp: classify_log_def)

lemma build_doc_erc20:
  assumes "build_doc env \<lparr>item_type = erc20_log, item_data = l\<rparr> txd ts = Inr d"
    and "topic_address env l 1 = Inr frm" and "topic_address env l 2 = Inr to"
  shows "isOutgoing d = (frm \<in> TREASURY_SET env) \<and> fromAddress d = frm \<and> toAddress d = to"
  using assms
  by (auto simp: build_doc_def item_fields_def Let_def
      split: sum.splits if_splits option.splits)

text \<open>
  The from and to addresses of an ERC-20 transfer log are the checksum spellings of the
  low 20 bytes of its second and third topic; the log enters the batch map iff exactly
  one of the two is in the treasury set, and a document built from it is outgoing iff
  the from address is in the set.
\<close>

lemma erc20_accepted:
  assumes "3 \<le> length (log_topics l)"
    and "hex (log_topics l ! 0) = TRANSFER_TOPIC"
    and "20 \<le> length (log_topics l ! 1)" and "20 \<le> length (log_topics l ! 2)"
    and "to_checksum_address env (hex (last_chars 20 (log_topics l ! 1))) = Inr frm"
    and "to_checksum_address env (hex (last_chars 20 (log_topics l ! 2))) = Inr to"
  shows "classify_log env l =
           (if (frm \<in> TREASURY_SET env) \<noteq> (to \<in> TREASURY_SET env)
            then Inr (Some (doc_id l, \<lparr>item_type = erc20_log, item_data = l\<rparr>))
            else Inr None)
         \<and> (\<forall>txd ts d. build_doc env \<lparr>item_type = erc20_log, item_data = l\<rparr> txd ts = Inr d
               \<longrightarrow> isOutgoing d = (frm \<in> TREASURY_SET env))"
proof -
  have f: "topic_address env l 1 = Inr frm" and t: "topic_address env l 2 = Inr to"
    using assms by (simp_all add: topic_address_low)
  have ne: "log_topics l \<noteq> []" using assms(1) by auto
  show ?thesis
    using classify_erc20 [OF ne assms(2) f t] build_doc_erc20 [OF _ f t] by blast
qed

lemma sim_treasury: "TREASURY_SET (sim_env c) = {''0x245db945c485b68fdc429e4f7085a1761aa4d45d''}"
  by code_simp

text \<open>
  A native transfer log enters the batch map iff the checksum spelling of its emitting
  address is in the treasury set; a document built from it has the zero address as token,
  is not outgoing and has the emitting address as receiver.
\<close>

lemma native_accepted:
  assumes "log_topics l \<noteq> []"
    and "hex (log_topics l ! 0) = NATIVE_RON_TRANSFER_TOPIC"
    and "to_checksum_address env (log_address l) = Inr log_emitter"
  shows "classify_log env l =
           (if log_emitter \<in> TREASURY_SET env
            then Inr (Some (doc_id l, \<lparr>item_type = native_ron_log, item_data = l\<rparr>))
            else Inr None)
         \<and> (\<forall>txd ts d. build_doc env \<lparr>item_type = native_ron_log, item_data = l\<rparr> txd ts = Inr d
               \<longrightarrow> tokenAddress d = ZERO_ADDRESS \<and> \<not> isOutgoing d \<and> toAddress d = log_emitter)"
proof -
  have "classify_log env l =
           (if log_emitter \<in> TREASURY_SET env
            then Inr (Some (doc_id l, \<lparr>item_type = native_ron_log, item_data = l\<rparr>))
            else Inr None)"
    using assms by (simp add: classify_log_def topics_differ)
  moreover have "\<And>txd ts d. build_doc env \<lparr>item_type = native_ron_log, item_data = l\<rparr> txd ts = Inr d
               \<Longrightarrow> tokenAddress d = ZERO_ADDRESS \<and> \<not> isOutgoing d \<and> toAddress d = log_emitter"
    using assms(3)
    by (auto simp: build_doc_def item_fields_def Let_def
        split: sum.splits if_splits option.splits)
  ultimately show ?thesis by blast
qed

lemma str_int_nonneg: "0 \<le> n \<Longrightarrow> str_int n = str_nat (nat n)"
  by (simp add: str_int_def)

lemma build_doc_amounts:
  assumes "build_doc env it txd ts = Inr d"
  shows "\<exists>n. int16 (hex (log_data (item_data it))) = Inr n
            \<and> amountRaw d = str_int n
            \<and> amount d = str_int (if isOutgoing d then - n else n)"
  using assms
  by (cases "item_type it")
     (auto simp: build_doc_def item_fields_def Let_def
        split: sum.splits if_splits option.splits)

text \<open>
  C5. In every record, \<open>amountRaw\<close> is the decimal string of the unsigned big-endian
  value of the log's data, a string of digits only, and \<open>amount\<close> is the decimal
  string of the negated value when the record is outgoing and of the value otherwise.
\<close>

theorem amount_of_record:
  assumes "build_doc env it txd ts = Inr d"
  shows "0 \<le> be_int (log_data (item_data it))
         \<and> amountRaw d = str_nat (nat (be_int (log_data (item_data it))))
         \<and> set (amountRaw d) \<subseteq> set ''0123456789''
         \<and> amount d = str_int (if isOutgoing d then - be_int (log_data (item_data it))
                                else be_int (log_data (item_data it)))
         \<and> (\<not> isOutgoing d \<longrightarrow> amount d = amountRaw d)"
proof -
  obtain n where n: "int16 (hex (log_data (item_data it))) = Inr n"
    and raw: "amountRaw d = str_int n"
    and amt: "amount d = str_int (if isOutgoing d then - n else n)"
    using build_doc_amounts [OF assms] by blast
  have eq: "n = be_int (log_data (item_data it))"
    using n by (simp add: int16_hex split: if_splits)
  have nn: "0 \<le> be_int (log_data (item_data it))" by (rule be_int_nonneg)
  have raw': "amountRaw d = str_nat (nat (be_int (log_data (item_data it))))"
    using raw eq nn by (simp add: str_int_nonneg)
  show ?thesis
    using nn raw' amt eq raw str_nat_digits [of "nat (be_int (log_data (item_data it)))"]
    by simp
qed

theorem amount_of_record_witness:
  "build_doc (sim_env chain0) \<lparr>item_type = erc20_log, item_data = log_out\<rparr> (Some tx_call) 1700000000
     = Inr doc_out
   \<and> be_int (log_data log_out) = 1000
   \<and> amountRaw doc_out = ''1000'' \<and> isOutgoing doc_out \<and> amount doc_out = ''-1000''"
proof -
  have h: "build_doc (sim_env chain0) \<lparr>item_type = erc20_log, item_data = log_out\<rparr> (Some tx_call)
             1700000000 = Inr doc_out"
    by code_simp
  have v: "be_int (log_data log_out) = 1000" by code_simp
  have s: "str_nat 1000 = ''1000''" "str_int (- 1000) = ''-1000''" by code_simp+
  have o: "isOutgoing doc_out" by code_simp
  show ?thesis
    using amount_of_record [OF h] h v s o by simp
qed

subsection \<open>Batches and the cursor\<close>


lemma commit_cursor:
  "commit env ops batch_end st w = (st', w') \<Longrightarrow>
     (ops \<noteq> [] \<and> (\<exists>u. coll_bulk_write env ops w = (Inr u, w')) \<and> st' = st\<lparr>start_block := batch_end + 1\<rparr>)
     \<or> (ops \<noteq> [] \<and> (\<exists>e. coll_bulk_write env ops w = (Inl e, w')) \<and> st' = st)
     \<or> (ops = [] \<and> st' = st \<and> w' = w)"
  by (auto simp: commit_def split: if_splits prod.splits sum.splits)

lemma process_batch_cursor:
  assumes "process_batch env batch_start batch_end st w = (r, st', w')"
  shows "start_block st' = start_block st \<or> start_block st' = batch_end + 1"
proof -
  have c: "\<And>ops s v s' v'. commit env ops batch_end s v = (s', v') \<Longrightarrow>
      start_block s' = start_block s \<or> start_block s' = batch_end + 1"
    by (drule commit_cursor) auto
  show ?thesis
    using assms
    by (auto simp: process_batch_def split: prod.splits sum.splits option.splits if_splits
        dest!: c)
qed

lemma run_batches_cursor:
  "run_batches env ee bs st w = (r, st', w') \<Longrightarrow>
     start_block st' = start_block st
     \<or> (\<exists>b\<in>set bs. start_block st' = min (b + BATCH_SIZE - 1) ee + 1)"
proof (induction bs arbitrary: st w)
  case Nil
  then show ?case by simp
next
  case (Cons b bs)
  obtain r1 st1 w1 where pb: "process_batch env b (min (b + BATCH_SIZE - 1) ee) st w = (r1, st1, w1)"
    by (metis prod_cases3)
  note c1 = process_batch_cursor [OF pb]
  show ?case
  proof (cases r1)
    case (Inl e)
    then have "st' = st1" using Cons.prems pb by (simp add: Let_def)
    then show ?thesis using c1 by auto
  next
    case (Inr u)
    then have "run_batches env ee bs st1 w1 = (r, st', w')"
      using Cons.prems pb by (simp add: Let_def)
    from Cons.IH [OF this] c1 show ?thesis by auto
  qed
qed

lemma empty_batch:
  assumes "fetch_logs env batch_start batch_end w = (Inr (Some logs), w1)"
    and "classify_logs env logs [] = Inr []"
  shows "process_batch env batch_start batch_end st w = (Inr (), st, w1)"
  using assms by (simp add: process_batch_def)

text \<open>
  C10. A batch whose logs leave the batch map empty ends normally with the cursor and
  the cache as they were, and an empty list of operations is not written and moves
  nothing. After the loop over the batches of the cycle the cursor is then where it was
  before that batch, so that the next cycle starts at or before it again, or it is just
  past a later batch of the same cycle, whose write succeeded.
\<close>

theorem empty_batch_keeps_cursor:
  assumes "fetch_logs env batch_start (min (batch_start + BATCH_SIZE - 1) ee) w = (Inr (Some logs), w1)"
    and "classify_logs env logs [] = Inr []"
    and "run_batches env ee (batch_start # rest) st w = (r, st', w')"
  shows "process_batch env batch_start (min (batch_start + BATCH_SIZE - 1) ee) st w = (Inr (), st, w1)
         \<and> commit env [] (min (batch_start + BATCH_SIZE - 1) ee) st w1 = (st, w1)
         \<and> (start_block st' = start_block st
              \<or> (\<exists>b\<in>set rest. start_block st' = min (b + BATCH_SIZE - 1) ee + 1))"
proof -
  note pb = empty_batch [OF assms(1) assms(2), of st]
  then have "run_batches env ee rest st w1 = (r, st', w')"
    using assms(3) by (simp add: Let_def)
  from run_batches_cursor [OF this] pb show ?thesis
    by (simp add: commit_def)
qed

lemma length_AList_update:
  "length (AList.update k v al) = (if k \<in> fst ` set al then length al else Suc (length al))"
  by (induction al) auto

lemma enrich_items_requeue:
  assumes "length docs = used" and "i < length docs"
    and "enrich_item env (snd (docs ! i)) cache w = (Inl e, cache', w')"
    and "hex (log_transactionHash (item_data (snd (docs ! i)))) \<notin> fst ` set docs"
  shows "enrich_items env used i docs ops cache w = (Inl RuntimeError, cache', w')"
proof -
  let ?it = "snd (docs ! i)"
  let ?docs' = "AList.update (hex (log_transactionHash (item_data ?it))) ?it docs"
  have len: "length ?docs' \<noteq> used"
    using assms(1,4) by (simp add: length_AList_update)
  have "enrich_items env used i docs ops cache w
          = enrich_items env used (Suc i) ?docs' ops cache' w'"
    using assms(1,2,3) by (subst enrich_items.simps) (simp add: Let_def)
  also have "\<dots> = (Inl RuntimeError, cache', w')"
    using len by (subst enrich_items.simps) simp
  finally show ?thesis .
qed


theorem empty_batch_keeps_cursor_witness:
  "fetch_logs (sim_env chain_quiet) 100 (min (100 + BATCH_SIZE - 1) 299) world0
     = (Inr (Some [log_other]), world0)
   \<and> classify_logs (sim_env chain_quiet) [log_other] [] = Inr []
   \<and> process_batch (sim_env chain_quiet) 100 (min (100 + BATCH_SIZE - 1) 299) (state0 100) world0
       = (Inr (), state0 100, world0)
   \<and> start_block (fst (snd (run_batches (sim_env chain_quiet) 299 [100, 200] (state0 100) world0)))
       = min (200 + BATCH_SIZE - 1) 299 + 1"
proof -
  let ?run = "run_batches (sim_env chain_quiet) 299 [100, 200] (state0 100) world0"
  have h1: "fetch_logs (sim_env chain_quiet) 100 (min (100 + BATCH_SIZE - 1) 299) world0
     = (Inr (Some [log_other]), world0)"
    by code_simp
  have h2: "classify_logs (sim_env chain_quiet) [log_other] [] = Inr []"
    by code_simp
  have h3: "?run = (fst ?run, fst (snd ?run), snd (snd ?run))"
    by simp
  have v: "start_block (fst (snd ?run)) = 300"
    by code_simp
  show ?thesis
    using empty_batch_keeps_cursor [OF h1 h2 h3] h1 h2 v by (simp add: BATCH_SIZE_def)
qed

text \<open>
  C3. Block 104 holds an ERC-721 transfer into the treasury and an ERC-20 transfer out of
  it; both are accepted into the batch map. The first has no data, so building its record
  raises \<open>ValueError\<close>, which the handler of the item catches: it stores the item under
  the transaction hash, a new key. The dict has grown, the next step of the iteration
  raises \<open>RuntimeError\<close> outside the handler, and the batch ends there: the second log
  is not processed, nothing is written, the cursor stays at 104, and every later cycle
  ends the same way.
\<close>

theorem requeue_aborts_batch:
  "classify_logs (sim_env chain_nft) [log_nft, log_out] []
     = Inr [(doc_id log_nft, \<lparr>item_type = erc20_log, item_data = log_nft\<rparr>),
            (doc_id log_out, \<lparr>item_type = erc20_log, item_data = log_out\<rparr>)]
   \<and> fst (enrich_item (sim_env chain_nft) \<lparr>item_type = erc20_log, item_data = log_nft\<rparr>
            Map.empty world0) = Inl ValueError
   \<and> fst (process_batch (sim_env chain_nft) 104 104 (state0 104) world0) = Inl RuntimeError
   \<and> ledger (snd (snd (process_batch (sim_env chain_nft) 104 104 (state0 104) world0))) = []
   \<and> start_block (fst (cycles 3 (sim_env chain_nft) (state0 104) world0)) = 104
   \<and> ledger (snd (cycles 3 (sim_env chain_nft) (state0 104) world0)) = []"
  by code_simp

text \<open>
  C2. The confirmed range 100 to 299 is two batches. The bulk write of the first, which
  holds the outgoing transfer of block 104, fails, and the cursor stays at 100; the loop
  goes on to the second batch, whose write succeeds and sets the cursor to 300. The next
  cycle starts at 300 and a restarted process at 251: the range of the failed batch is
  not read again and its record is never written.
\<close>

theorem failed_batch_is_skipped:
  "(case cycle (sim_env chain_two) (state0 100) (world0\<lparr>write_faults := [True]\<rparr>) of
      (st, w) \<Rightarrow>
        start_block st = 300 \<and> ledger w = [doc_in]
        \<and> (case startup (sim_env chain_two) w of
              (Inr st', w') \<Rightarrow> start_block st' = 251
            | (Inl e, w') \<Rightarrow> False))"
  by code_simp


subsection \<open>The resume point\<close>


lemma hd_sort_key_least:
  assumes "xs \<noteq> []" and "y \<in> set xs"
  shows "f (hd (sort_key f xs)) \<le> f y"
proof -
  let ?s = "sort_key f xs"
  have ne: "?s \<noteq> []" using assms(1) by (metis length_0_conv length_sort)
  have "y \<in> set ?s" using assms(2) by simp
  moreover have "sorted (map f ?s)" by (rule sorted_sort_key)
  ultimately show ?thesis
    using ne by (cases ?s) auto
qed

lemma hd_sort_key_mem: "xs \<noteq> [] \<Longrightarrow> hd (sort_key f xs) \<in> set xs"
  by (metis hd_in_set length_0_conv length_sort set_sort)

lemma find_one_last_Max:
  "find_one_last coll = (if coll = [] then None else Some (Max (blockNumber ` set coll)))"
proof (cases "coll = []")
  case True
  then show ?thesis by (simp add: find_one_last_def)
next
  case False
  let ?s = "sort_key (\<lambda>d. - blockNumber d) coll"
  have ne: "?s \<noteq> []" using False by (metis length_0_conv length_sort)
  have m: "hd ?s \<in> set coll" using False by (rule hd_sort_key_mem)
  have "\<And>y. y \<in> set coll \<Longrightarrow> blockNumber y \<le> blockNumber (hd ?s)"
    using hd_sort_key_least [OF False, of _ "\<lambda>d. - blockNumber d"] by simp
  then have "Max (blockNumber ` set coll) = blockNumber (hd ?s)"
    using m by (intro Max_eqI) auto
  moreover have "find_one_last coll = Some (blockNumber (hd ?s))"
    using ne by (cases ?s) (simp_all add: find_one_last_def)
  ultimately show ?thesis using False by simp
qed

lemma find_one_last_order:
  assumes "mset coll = mset coll'"
  shows "find_one_last coll = find_one_last coll'"
proof -
  have "set coll = set coll'" using assms by (rule mset_eq_setD)
  moreover have "coll = [] \<longleftrightarrow> coll' = []" using assms by (metis mset_zero_iff)
  ultimately show ?thesis by (simp add: find_one_last_Max)
qed

lemma startup_sim:
  "startup (sim_env c) w =
     (Inr \<lparr>start_block = (case find_one_last (ledger w) of Some n \<Rightarrow> n + 1 | None \<Rightarrow> chain_head c),
           block_ts_cache = Map.empty\<rparr>, w)"
  by (simp add: startup_def sim_env_def split: option.splits)

text \<open>
  C6. At process start, against a node and a database that answer, the cursor is the
  largest \<open>blockNumber\<close> of the collection plus one when the collection has documents,
  whatever their order, and the head of the chain when it has none.
\<close>

theorem resume_point:
  "startup (sim_env c) w =
     (Inr \<lparr>start_block = (if ledger w = [] then chain_head c
                           else Max (blockNumber ` set (ledger w)) + 1),
           block_ts_cache = Map.empty\<rparr>, w)
   \<and> (mset (ledger w) = mset (ledger w') \<longrightarrow>
        fst (startup (sim_env c) w) = fst (startup (sim_env c) w'))"
proof -
  have "mset (ledger w) = mset (ledger w') \<Longrightarrow>
        fst (startup (sim_env c) w) = fst (startup (sim_env c) w')"
    by (simp add: startup_sim find_one_last_order [of "ledger w" "ledger w'"])
  then show ?thesis
    by (simp add: startup_sim find_one_last_Max)
qed

theorem resume_point_witness:
  "mset (ledger (world0\<lparr>ledger := [doc_in, doc_out]\<rparr>)) = mset (ledger (world0\<lparr>ledger := [doc_out, doc_in]\<rparr>))
   \<and> fst (startup (sim_env chain_two) (world0\<lparr>ledger := [doc_in, doc_out]\<rparr>))
       = fst (startup (sim_env chain_two) (world0\<lparr>ledger := [doc_out, doc_in]\<rparr>))
   \<and> startup (sim_env chain_two) (world0\<lparr>ledger := [doc_in, doc_out]\<rparr>)
       = (Inr \<lparr>start_block = 251, block_ts_cache = Map.empty\<rparr>, world0\<lparr>ledger := [doc_in, doc_out]\<rparr>)
   \<and> startup (sim_env chain_two) world0
       = (Inr \<lparr>start_block = 300, block_ts_cache = Map.empty\<rparr>, world0)"
proof -
  have h: "mset (ledger (world0\<lparr>ledger := [doc_in, doc_out]\<rparr>))
             = mset (ledger (world0\<lparr>ledger := [doc_out, doc_in]\<rparr>))"
    by (simp add: add.commute)
  have b: "blockNumber doc_in = 250" "blockNumber doc_out = 104"
    by (simp_all add: doc_in_def doc_out_def)
  have e: "ledger world0 = []" "chain_head chain_two = 300"
    by (simp_all add: world0_def chain_two_def)
  note r1 = resume_point [of chain_two "world0\<lparr>ledger := [doc_in, doc_out]\<rparr>"
      "world0\<lparr>ledger := [doc_out, doc_in]\<rparr>"]
  note r2 = resume_point [of chain_two world0 world0]
  have c1: "fst (startup (sim_env chain_two) (world0\<lparr>ledger := [doc_in, doc_out]\<rparr>))
       = fst (startup (sim_env chain_two) (world0\<lparr>ledger := [doc_out, doc_in]\<rparr>))"
    using r1 h by blast
  have c2: "startup (sim_env chain_two) (world0\<lparr>ledger := [doc_in, doc_out]\<rparr>)
       = (Inr \<lparr>start_block = 251, block_ts_cache = Map.empty\<rparr>, world0\<lparr>ledger := [doc_in, doc_out]\<rparr>)"
    using r1 b by simp
  have c3: "startup (sim_env chain_two) world0
       = (Inr \<lparr>start_block = 300, block_ts_cache = Map.empty\<rparr>, world0)"
    using r2 e by simp
  from h c1 c2 c3 show ?thesis by blast
qed


subsection \<open>Ingesting a range twice\<close>

lemma rpc_attempt_sim:
  "rpc_attempt ans w = (r, w') \<Longrightarrow> ledger w' = ledger w \<and> (\<forall>v. r = Inr v \<longrightarrow> ans = Inr v)"
  by (auto simp: rpc_attempt_def split: list.splits if_splits)

lemma with_retries_from_sim:
  "with_retries_from (sim_env c) (rpc_attempt ans) d n w = (r, w') \<Longrightarrow>
     ledger w' = ledger w \<and> (\<forall>v. r = Inr (Some v) \<longrightarrow> ans = Inr v)"
proof (induction n arbitrary: w)
  case 0
  then show ?case by auto
next
  case (Suc n)
  obtain r1 w1 where a: "rpc_attempt ans w = (r1, w1)" by (cases "rpc_attempt ans w")
  note s = rpc_attempt_sim [OF a]
  show ?case
  proof (cases r1)
    case (Inr v)
    then show ?thesis using Suc.prems a s by auto
  next
    case (Inl e)
    show ?thesis
    proof (cases "n = 0")
      case True
      then show ?thesis using Suc.prems a s Inl by auto
    next
      case False
      then have "with_retries_from (sim_env c) (rpc_attempt ans) d n (time_sleep (sim_env c) d w1) = (r, w')"
        using Suc.prems a Inl by simp
      from Suc.IH [OF this] s show ?thesis by (simp add: sim_env_def)
    qed
  qed
qed

lemma sim_env_calls:
  "eth_get_transaction (sim_env c) h =
     rpc_attempt (case map_of (chain_txs c) h of
                    None \<Rightarrow> Inl (External ''transaction not found'') | Some t \<Rightarrow> Inr t)"
  "eth_get_block (sim_env c) n =
     rpc_attempt (case map_of (chain_blocks c) n of
                    None \<Rightarrow> Inl (External ''block not found'') | Some b \<Rightarrow> Inr b)"
  "eth_get_logs (sim_env c) a b ts = rpc_attempt (Inr (sim_get_logs c a b ts))"
  "coll_bulk_write (sim_env c) = sim_bulk_write"
  "to_checksum_address (sim_env c) = sim_checksum"
  by (simp_all add: sim_env_def)

lemma fetch_transaction_sim:
  assumes "fetch_transaction (sim_env c) h w = (r, w')"
  shows "ledger w' = ledger w \<and> (\<forall>t. r = Inr (Some t) \<longrightarrow> map_of (chain_txs c) h = Some t)"
  using with_retries_from_sim [OF assms [unfolded fetch_transaction_def with_retries_def sim_env_calls]]
  by (auto split: option.splits)

lemma fetch_block_sim:
  assumes "fetch_block (sim_env c) n w = (r, w')"
  shows "ledger w' = ledger w \<and> (\<forall>b. r = Inr (Some b) \<longrightarrow> map_of (chain_blocks c) n = Some b)"
  using with_retries_from_sim [OF assms [unfolded fetch_block_def with_retries_def sim_env_calls]]
  by (auto split: option.splits)

lemma fetch_logs_sim:
  assumes "fetch_logs (sim_env c) a b w = (r, w')"
  shows "ledger w' = ledger w
         \<and> (\<forall>logs. r = Inr (Some logs) \<longrightarrow>
               logs = sim_get_logs c a b [TRANSFER_TOPIC, NATIVE_RON_TRANSFER_TOPIC])"
  using with_retries_from_sim [OF assms [unfolded fetch_logs_def with_retries_def sim_env_calls]]
  by auto

lemma build_doc_None: "build_doc env it None ts \<noteq> Inr d"
  by (auto simp: build_doc_def Let_def split: sum.splits prod.splits)

lemma enrich_item_sim:
  assumes "enrich_item (sim_env c) it cache w = (r, cache', w')" and "cache_ok c cache"
  shows "ledger w' = ledger w \<and> cache_ok c cache' \<and> (\<forall>op. r = Inr op \<longrightarrow> chain_op c it = Some op)"
proof -
  let ?l = "item_data it"
  let ?bn = "log_blockNumber ?l"
  obtain r1 w1 where ft: "fetch_transaction (sim_env c) (hex (log_transactionHash ?l)) w = (r1, w1)"
    by (cases "fetch_transaction (sim_env c) (hex (log_transactionHash ?l)) w")
  note t = fetch_transaction_sim [OF ft]
  show ?thesis
  proof (cases r1)
    case (Inl e)
    then show ?thesis using assms ft t by (auto simp: enrich_item_def Let_def)
  next
    case (Inr txd)
    show ?thesis
    proof (cases "cache ?bn")
      case (Some ts)
      then obtain b where b: "map_of (chain_blocks c) ?bn = Some b" "block_timestamp b = ts"
        using assms(2) by (auto simp: cache_ok_def)
      show ?thesis
        using assms ft t Inr Some b
        by (cases txd)
           (auto simp: enrich_item_def Let_def chain_op_def build_doc_None
            split: sum.splits option.splits prod.splits)
    next
      case None
      obtain r2 w2 where fb: "fetch_block (sim_env c) ?bn w1 = (r2, w2)"
        by (cases "fetch_block (sim_env c) ?bn w1")
      note bl = fetch_block_sim [OF fb]
      show ?thesis
      proof (cases r2)
        case (Inl e)
        then show ?thesis using assms ft t Inr None fb bl by (auto simp: enrich_item_def Let_def)
      next
        case r2: (Inr bo)
        show ?thesis
        proof (cases bo)
          case None': None
          then show ?thesis using assms ft t Inr None fb bl r2 by (auto simp: enrich_item_def Let_def)
        next
          case (Some b)
          then have mb: "map_of (chain_blocks c) ?bn = Some b" using bl r2 by simp
          have ok: "cache_ok c (cache(?bn \<mapsto> block_timestamp b))"
            using assms(2) mb by (auto simp: cache_ok_def)
          show ?thesis
            using assms(1) ft t Inr None fb bl r2 Some mb ok
            by (cases txd)
               (auto simp: enrich_item_def Let_def chain_op_def build_doc_None
                split: sum.splits option.splits prod.splits)
        qed
      qed
    qed
  qed
qed

lemma dash_not_in_hex: "CHR ''-'' \<notin> set (hex bs)"
proof -
  have "\<not> is_hexdigit CHR ''-''" by (simp add: is_hexdigit_def)
  then have "CHR ''-'' \<notin> set (concat (map hex_byte bs))"
    using hex_digits [of bs] by (auto simp: list_all_iff)
  then show ?thesis by (simp add: hex_def)
qed

lemma dash_in_doc_id: "CHR ''-'' \<in> set (doc_id l)"
  by (simp add: doc_id_def)

lemma classify_log_key:
  "classify_log env l = Inr (Some (k, it)) \<Longrightarrow> k = doc_id l"
  by (auto simp: classify_log_def Let_def split: if_splits sum.splits)

lemma classify_logs_keys:
  "classify_logs env logs docs = Inr docs' \<Longrightarrow>
   \<forall>k\<in>fst ` set docs. CHR ''-'' \<in> set k \<Longrightarrow>
   \<forall>k\<in>fst ` set docs'. CHR ''-'' \<in> set k"
proof (induction logs arbitrary: docs)
  case Nil
  then show ?case by simp
next
  case (Cons l ls)
  show ?case
  proof (cases "classify_log env l")
    case (Inl e)
    then show ?thesis using Cons.prems by simp
  next
    case (Inr res)
    show ?thesis
    proof (cases res)
      case None
      then show ?thesis using Cons Inr by simp
    next
      case (Some p)
      obtain k it where p: "p = (k, it)" by (cases p)
      have k: "k = doc_id l" using Inr Some p by (simp add: classify_log_key)
      have "classify_logs env ls (AList.update k it docs) = Inr docs'"
        using Cons.prems(1) Inr Some p by simp
      moreover have "\<forall>k'\<in>fst ` set (AList.update k it docs). CHR ''-'' \<in> set k'"
        using Cons.prems(2) k dash_in_doc_id [of l] by (simp add: dom_update)
      ultimately show ?thesis by (rule Cons.IH)
    qed
  qed
qed

lemma enrich_items_sim:
  assumes "enrich_items (sim_env c) used i docs ops cache w = (r, cache', w')"
    and "cache_ok c cache"
    and "\<forall>k\<in>fst ` set docs. CHR ''-'' \<in> set k"
    and "length docs = used"
  shows "ledger w' = ledger w
         \<and> (\<forall>ops'. r = Inr ops' \<longrightarrow>
               map Some ops' = map Some ops @ map (chain_op c \<circ> snd) (drop i docs))"
  using assms(1,2)
proof (induction "length docs - i" arbitrary: i ops cache w)
  case 0
  then have "length docs \<le> i" by simp
  then show ?case
    using "0.prems"(1) assms(4) by (subst (asm) enrich_items.simps) auto
next
  case (Suc n)
  then have i: "i < length docs" by simp
  let ?it = "snd (docs ! i)"
  obtain r1 c1 w1 where e: "enrich_item (sim_env c) ?it cache w = (r1, c1, w1)"
    by (cases "enrich_item (sim_env c) ?it cache w") auto
  note s = enrich_item_sim [OF e Suc.prems(2)]
  show ?case
  proof (cases r1)
    case (Inl x)
    have "hex (log_transactionHash (item_data ?it)) \<notin> fst ` set docs"
      using assms(3) dash_not_in_hex by blast
    from enrich_items_requeue [OF assms(4) i e [unfolded Inl] this, of ops]
    show ?thesis using Suc.prems(1) s by auto
  next
    case (Inr op)
    have "enrich_items (sim_env c) used (Suc i) docs (ops @ [op]) c1 w1 = (r, cache', w')"
      using Suc.prems(1) assms(4) i e Inr
      by (subst (asm) enrich_items.simps) (simp add: Let_def)
    moreover have "n = length docs - Suc i" using Suc.hyps(2) by simp
    ultimately have ih: "ledger w' = ledger w1
         \<and> (\<forall>ops'. r = Inr ops' \<longrightarrow>
               map Some ops' = map Some (ops @ [op]) @ map (chain_op c \<circ> snd) (drop (Suc i) docs))"
      using Suc.hyps(1) s by blast
    have "drop i docs = docs ! i # drop (Suc i) docs"
      using i by (simp add: Cons_nth_drop_Suc)
    then show ?thesis using ih s Inr by simp
  qed
qed

lemma sim_bulk_write_ledger:
  "sim_bulk_write ops w = (r, w') \<Longrightarrow>
     (\<exists>u. r = Inr u) \<and> ledger w' = bulk_write_apply ops (ledger w)
     \<or> (\<exists>e. r = Inl e) \<and> ledger w' = ledger w"
  by (auto simp: sim_bulk_write_def split: list.splits if_splits)

lemma commit_sim:
  assumes "commit (sim_env c) ops batch_end st w = (st', w')"
  shows "(ops \<noteq> [] \<and> ledger w' = bulk_write_apply ops (ledger w) \<and> st' = st\<lparr>start_block := batch_end + 1\<rparr>)
         \<or> (ledger w' = ledger w \<and> st' = st)"
  using commit_cursor [OF assms]
  by (auto simp: sim_env_calls dest: sim_bulk_write_ledger)

lemma process_batch_sim:
  assumes "process_batch (sim_env c) a b st w = (r, st', w')"
    and "cache_ok c (block_ts_cache st)"
  shows "(ledger w' = ledger w \<and> start_block st' = start_block st)
         \<or> (\<exists>docs ops.
               classify_logs (sim_env c)
                 (sim_get_logs c a b [TRANSFER_TOPIC, NATIVE_RON_TRANSFER_TOPIC]) [] = Inr docs
               \<and> map Some ops = map (chain_op c \<circ> snd) docs
               \<and> ledger w' = bulk_write_apply ops (ledger w)
               \<and> start_block st' = b + 1)"
proof -
  obtain r1 w1 where fl: "fetch_logs (sim_env c) a b w = (r1, w1)"
    by (cases "fetch_logs (sim_env c) a b w")
  note f = fetch_logs_sim [OF fl]
  show ?thesis
  proof (cases r1)
    case (Inl e)
    then show ?thesis using assms(1) fl f by (auto simp: process_batch_def)
  next
    case (Inr lo)
    show ?thesis
    proof (cases lo)
      case None
      then show ?thesis using assms(1) fl f Inr by (auto simp: process_batch_def)
    next
      case (Some logs)
      then have logs: "logs = sim_get_logs c a b [TRANSFER_TOPIC, NATIVE_RON_TRANSFER_TOPIC]"
        using f Inr by simp
      show ?thesis
      proof (cases "classify_logs (sim_env c) logs []")
        case (Inl e)
        then show ?thesis using assms(1) fl f Inr Some by (auto simp: process_batch_def)
      next
        case cl: (Inr docs)
        show ?thesis
        proof (cases "docs = []")
          case True
          then show ?thesis using assms(1) fl f Inr Some cl by (auto simp: process_batch_def)
        next
          case False
          obtain r2 c2 w2 where ei: "enrich_items (sim_env c) (length docs) 0 docs []
              (block_ts_cache st) w1 = (r2, c2, w2)"
            by (cases "enrich_items (sim_env c) (length docs) 0 docs [] (block_ts_cache st) w1") auto
          have keys: "\<forall>k\<in>fst ` set docs. CHR ''-'' \<in> set k"
            using classify_logs_keys [OF cl] by simp
          note en = enrich_items_sim [OF ei assms(2) keys refl]
          show ?thesis
          proof (cases r2)
            case (Inl e)
            then show ?thesis
              using assms(1) fl f Inr Some cl False ei en by (auto simp: process_batch_def)
          next
            case r2: (Inr ops)
            then have ops: "map Some ops = map (chain_op c \<circ> snd) docs" using en by simp
            obtain st2 w3 where cm: "commit (sim_env c) ops b (st\<lparr>block_ts_cache := c2\<rparr>) w2 = (st2, w3)"
              by (cases "commit (sim_env c) ops b (st\<lparr>block_ts_cache := c2\<rparr>) w2")
            have res: "st' = st2" "w' = w3"
              using assms(1) fl Inr Some cl False ei r2 cm by (auto simp: process_batch_def)
            from commit_sim [OF cm] show ?thesis
            proof
              assume "ops \<noteq> [] \<and> ledger w3 = bulk_write_apply ops (ledger w2)
                  \<and> st2 = st\<lparr>block_ts_cache := c2, start_block := b + 1\<rparr>"
              then show ?thesis using res en f cl logs ops by auto
            next
              assume "ledger w3 = ledger w2 \<and> st2 = st\<lparr>block_ts_cache := c2\<rparr>"
              then show ?thesis using res en f by auto
            qed
          qed
        qed
      qed
    qed
  qed
qed

lemma ids_update_one:
  "map mongo_id (update_one_apply (UpdateOne (mongo_id d) d True) L) =
     (if mongo_id d \<in> mongo_id ` set L then map mongo_id L else map mongo_id L @ [mongo_id d])"
  by (induction L) auto

lemma distinct_update_one:
  "distinct (map mongo_id L) \<Longrightarrow>
     distinct (map mongo_id (update_one_apply (UpdateOne (mongo_id d) d True) L))"
  by (simp add: ids_update_one)

lemma update_one_present:
  "mongo_id d \<in> mongo_id ` set L \<Longrightarrow> distinct (map mongo_id L) \<Longrightarrow>
     update_one_apply (UpdateOne (mongo_id d) d True) L =
       map (\<lambda>x. if mongo_id x = mongo_id d then d else x) L"
proof (induction L)
  case Nil
  then show ?case by simp
next
  case (Cons x xs)
  show ?case
  proof (cases "mongo_id x = mongo_id d")
    case True
    then have "\<forall>y\<in>set xs. mongo_id y \<noteq> mongo_id d"
      using Cons.prems(2) by (auto simp: image_iff)
    then have "map (\<lambda>x. if mongo_id x = mongo_id d then d else x) xs = xs"
      by (intro map_idI) auto
    then show ?thesis using True by simp
  next
    case False
    then show ?thesis using Cons by auto
  qed
qed

lemma set_update_one:
  "distinct (map mongo_id L) \<Longrightarrow> x \<in> set (update_one_apply (UpdateOne (mongo_id d) d True) L) \<Longrightarrow>
     x = d \<or> (x \<in> set L \<and> mongo_id x \<noteq> mongo_id d)"
  by (induction L) (auto simp: image_iff split: if_splits)

lemma bulk_snoc: "bulk_write_apply (ops @ [u]) L = update_one_apply u (bulk_write_apply ops L)"
  by (simp add: bulk_write_apply_def)

lemma last_write_snoc: "last_write (ops @ [UpdateOne k d b]) = (last_write ops)(k \<mapsto> d)"
  by (simp add: last_write_def)

lemma keyedE: "keyed u \<Longrightarrow> \<exists>d. u = UpdateOne (mongo_id d) d True"
  by (cases u) (simp add: keyed_def)

lemma last_write_keyed:
  "\<forall>u\<in>set ops. keyed u \<Longrightarrow> last_write ops k = Some d \<Longrightarrow> mongo_id d = k"
proof (induction ops arbitrary: d rule: rev_induct)
  case Nil
  then show ?case by (simp add: last_write_def)
next
  case (snoc u ops)
  have "keyed u" using snoc.prems(1) by simp
  from keyedE [OF this] obtain d' where u: "u = UpdateOne (mongo_id d') d' True"
    by blast
  show ?case using snoc u by (auto simp: last_write_snoc split: if_splits)
qed

lemma bulk_distinct:
  "\<forall>u\<in>set ops. keyed u \<Longrightarrow> distinct (map mongo_id L) \<Longrightarrow>
     distinct (map mongo_id (bulk_write_apply ops L))"
proof (induction ops rule: rev_induct)
  case Nil
  then show ?case by (simp add: bulk_write_apply_def)
next
  case (snoc u ops)
  have "keyed u" using snoc.prems(1) by simp
  from keyedE [OF this] obtain d where u: "u = UpdateOne (mongo_id d) d True"
    by blast
  show ?case using snoc u by (simp add: bulk_snoc distinct_update_one)
qed

lemma bulk_ids:
  "\<forall>u\<in>set ops. keyed u \<Longrightarrow>
     mongo_id ` set (bulk_write_apply ops L) = mongo_id ` set L \<union> dom (last_write ops)"
proof (induction ops rule: rev_induct)
  case Nil
  then show ?case by (simp add: bulk_write_apply_def last_write_def)
next
  case (snoc u ops)
  have "keyed u" using snoc.prems(1) by simp
  from keyedE [OF this] obtain d where u: "u = UpdateOne (mongo_id d) d True"
    by blast
  have "mongo_id ` set (update_one_apply u (bulk_write_apply ops L))
          = insert (mongo_id d) (mongo_id ` set (bulk_write_apply ops L))"
    using ids_update_one [of d "bulk_write_apply ops L"] u
    by (metis (no_types, lifting) insert_absorb list.set_map list.simps(15) rotate1.simps(2)
        set_rotate1)
  then show ?case using snoc u by (auto simp: bulk_snoc last_write_snoc)
qed

lemma bulk_last_write:
  "\<forall>u\<in>set ops. keyed u \<Longrightarrow> distinct (map mongo_id L) \<Longrightarrow>
     x \<in> set (bulk_write_apply ops L) \<Longrightarrow> last_write ops (mongo_id x) = Some d \<Longrightarrow> x = d"
proof (induction ops arbitrary: x d rule: rev_induct)
  case Nil
  then show ?case by (simp add: last_write_def)
next
  case (snoc u ops)
  have "keyed u" using snoc.prems(1) by simp
  from keyedE [OF this] obtain d' where u: "u = UpdateOne (mongo_id d') d' True"
    by blast
  have dist: "distinct (map mongo_id (bulk_write_apply ops L))"
    using snoc.prems by (simp add: bulk_distinct)
  from set_update_one [OF dist, of x d'] snoc.prems(3) u
  have "x = d' \<or> (x \<in> set (bulk_write_apply ops L) \<and> mongo_id x \<noteq> mongo_id d')"
    by (simp add: bulk_snoc)
  then show ?case
  proof
    assume "x = d'"
    then show ?thesis using snoc.prems(4) u by (simp add: last_write_snoc)
  next
    assume a: "x \<in> set (bulk_write_apply ops L) \<and> mongo_id x \<noteq> mongo_id d'"
    then have "last_write ops (mongo_id x) = Some d"
      using snoc.prems(4) u by (simp add: last_write_snoc)
    then show ?thesis using snoc.IH [of x d] snoc.prems(1,2) a by simp
  qed
qed

lemma bulk_on_present:
  "\<forall>u\<in>set ops. keyed u \<Longrightarrow> distinct (map mongo_id M) \<Longrightarrow>
     dom (last_write ops) \<subseteq> mongo_id ` set M \<Longrightarrow>
     bulk_write_apply ops M =
       map (\<lambda>x. case last_write ops (mongo_id x) of Some d \<Rightarrow> d | None \<Rightarrow> x) M"
proof (induction ops rule: rev_induct)
  case Nil
  then show ?case by (simp add: bulk_write_apply_def last_write_def)
next
  case (snoc u ops)
  have "keyed u" using snoc.prems(1) by simp
  from keyedE [OF this] obtain d where u: "u = UpdateOne (mongo_id d) d True"
    by blast
  let ?g = "\<lambda>x. case last_write ops (mongo_id x) of Some d \<Rightarrow> d | None \<Rightarrow> x"
  have k: "\<forall>u\<in>set ops. keyed u" using snoc.prems(1) by simp
  have dom: "dom (last_write ops) \<subseteq> mongo_id ` set M" "mongo_id d \<in> mongo_id ` set M"
    using snoc.prems(3) u by (auto simp: last_write_snoc)
  have ih: "bulk_write_apply ops M = map ?g M"
    using snoc.IH [OF k snoc.prems(2) dom(1)] .
  have gid: "\<And>x. mongo_id (?g x) = mongo_id x"
    using last_write_keyed [OF k] by (auto split: option.splits)
  have ids: "map mongo_id (map ?g M) = map mongo_id M"
    by (simp add: gid)
  have p2: "distinct (map mongo_id (map ?g M))"
    unfolding ids by (rule snoc.prems(2))
  have "set (map mongo_id (map ?g M)) = set (map mongo_id M)"
    by (simp only: ids)
  then have p1: "mongo_id d \<in> mongo_id ` set (map ?g M)"
    using dom(2) by (simp only: set_map)
  have "update_one_apply u (map ?g M) =
          map (\<lambda>x. if mongo_id x = mongo_id d then d else x) (map ?g M)"
    unfolding u using p1 p2 by (rule update_one_present)
  also have "\<dots> = map (\<lambda>x. case last_write (ops @ [u]) (mongo_id x) of Some d \<Rightarrow> d | None \<Rightarrow> x) M"
    by (auto simp: u last_write_snoc gid)
  finally show ?case by (simp add: bulk_snoc ih)
qed

lemma bulk_write_idempotent:
  assumes "\<forall>u\<in>set ops. keyed u" and "distinct (map mongo_id L)"
  shows "bulk_write_apply ops (bulk_write_apply ops L) = bulk_write_apply ops L"
proof -
  let ?M = "bulk_write_apply ops L"
  have d: "distinct (map mongo_id ?M)" using assms by (rule bulk_distinct)
  have dom: "dom (last_write ops) \<subseteq> mongo_id ` set ?M"
    using bulk_ids [OF assms(1), of L] by auto
  have "bulk_write_apply ops ?M =
          map (\<lambda>x. case last_write ops (mongo_id x) of Some d \<Rightarrow> d | None \<Rightarrow> x) ?M"
    using assms(1) d dom by (rule bulk_on_present)
  also have "\<dots> = ?M"
    using bulk_last_write [OF assms] by (intro map_idI) (auto split: option.splits)
  finally show ?thesis .
qed

lemma build_doc_id:
  "build_doc env it txd ts = Inr d \<Longrightarrow>
     mongo_id d = str_int (blockNumber d) @ ''-'' @ str_int (logIndex d)"
  by (auto simp: build_doc_def Let_def split: sum.splits prod.splits if_splits option.splits)

lemma chain_op_keyed:
  assumes "chain_op c it = Some u"
  shows "keyed u
         \<and> (\<exists>d. u = UpdateOne (mongo_id d) d True
                \<and> mongo_id d = str_int (blockNumber d) @ ''-'' @ str_int (logIndex d))"
  using assms
  by (auto simp: chain_op_def keyed_def build_doc_id split: option.splits sum.splits)

lemma chain_ops_keyed:
  assumes "map Some ops = map (chain_op c \<circ> snd) docs" and "u \<in> set ops"
  shows "keyed u
         \<and> (\<exists>d. u = UpdateOne (mongo_id d) d True
                \<and> mongo_id d = str_int (blockNumber d) @ ''-'' @ str_int (logIndex d))"
proof -
  have "Some u \<in> set (map Some ops)" using assms(2) by simp
  then obtain p where "p \<in> set docs" "chain_op c (snd p) = Some u"
    unfolding assms(1) by auto
  then show ?thesis using chain_op_keyed by blast
qed

lemma set_update_one_any:
  "x \<in> set (update_one_apply (UpdateOne k d b) L) \<Longrightarrow> x = d\<lparr>mongo_id := k\<rparr> \<or> x \<in> set L"
  by (induction L) (auto split: if_splits)

lemma set_bulk:
  "x \<in> set (bulk_write_apply ops L) \<Longrightarrow>
     x \<in> set L \<or> (\<exists>k d b. UpdateOne k d b \<in> set ops \<and> x = d\<lparr>mongo_id := k\<rparr>)"
proof (induction ops arbitrary: x rule: rev_induct)
  case Nil
  then show ?case by (simp add: bulk_write_apply_def)
next
  case (snoc u ops)
  obtain k d b where u: "u = UpdateOne k d b" by (cases u)
  from snoc.prems have "x = d\<lparr>mongo_id := k\<rparr> \<or> x \<in> set (bulk_write_apply ops L)"
    by (simp add: bulk_snoc u set_update_one_any)
  then show ?case using snoc.IH [of x] u by auto
qed

text \<open>
  C1. Against a chain whose data do not change, with any faults of the node and of the
  database: once the ingestion of a block range has written its batch (the cursor moved
  past the range), ingesting the same range again, from any cache that agrees with the
  chain, leaves the collection exactly as it was. The collection has one document per
  \<open>_id\<close>, and every document that the ingestion added has the \<open>_id\<close> formed from its
  block number and log index.
\<close>

theorem idempotent_ingestion:
  assumes "cache_ok c (block_ts_cache st)" and "cache_ok c (block_ts_cache st2)"
    and "distinct (map mongo_id (ledger w))"
    and "process_batch (sim_env c) a b st w = (r, st', w')"
    and "start_block st \<le> b" and "start_block st' = b + 1"
    and "ledger w2 = ledger w'"
    and "process_batch (sim_env c) a b st2 w2 = (r2, st2', w2')"
  shows "ledger w2' = ledger w'
         \<and> distinct (map mongo_id (ledger w'))
         \<and> (\<forall>d\<in>set (ledger w'). d \<in> set (ledger w)
               \<or> mongo_id d = str_int (blockNumber d) @ ''-'' @ str_int (logIndex d))"
proof -
  let ?logs = "sim_get_logs c a b [TRANSFER_TOPIC, NATIVE_RON_TRANSFER_TOPIC]"
  from process_batch_sim [OF assms(4) assms(1)] assms(5,6)
  obtain docs ops where first:
    "classify_logs (sim_env c) ?logs [] = Inr docs"
    "map Some ops = map (chain_op c \<circ> snd) docs"
    "ledger w' = bulk_write_apply ops (ledger w)"
    by auto
  have keyed: "\<forall>u\<in>set ops. keyed u"
    using chain_ops_keyed [OF first(2)] by blast
  have dist: "distinct (map mongo_id (ledger w'))"
    unfolding first(3) using keyed assms(3) by (rule bulk_distinct)
  have same: "ledger w2' = ledger w'"
    using process_batch_sim [OF assms(8) assms(2)]
  proof
    assume "ledger w2' = ledger w2 \<and> start_block st2' = start_block st2"
    then show ?thesis using assms(7) by simp
  next
    assume "\<exists>docs ops. classify_logs (sim_env c) ?logs [] = Inr docs
        \<and> map Some ops = map (chain_op c \<circ> snd) docs
        \<and> ledger w2' = bulk_write_apply ops (ledger w2)
        \<and> start_block st2' = b + 1"
    then obtain docs' ops' where second:
      "classify_logs (sim_env c) ?logs [] = Inr docs'"
      "map Some ops' = map (chain_op c \<circ> snd) docs'"
      "ledger w2' = bulk_write_apply ops' (ledger w2)"
      by auto
    have "docs' = docs" using first(1) second(1) by simp
    then have "map Some ops' = map Some ops" using first(2) second(2) by simp
    then have "ops' = ops" by (simp add: inj_map_eq_map)
    then show ?thesis
      using second(3) assms(7) first(3) bulk_write_idempotent [OF keyed assms(3)] by simp
  qed
  have ids: "\<forall>d\<in>set (ledger w'). d \<in> set (ledger w)
               \<or> mongo_id d = str_int (blockNumber d) @ ''-'' @ str_int (logIndex d)"
  proof
    fix x assume "x \<in> set (ledger w')"
    then have "x \<in> set (ledger w) \<or> (\<exists>k d b. UpdateOne k d b \<in> set ops \<and> x = d\<lparr>mongo_id := k\<rparr>)"
      unfolding first(3) by (rule set_bulk)
    then show "x \<in> set (ledger w)
               \<or> mongo_id x = str_int (blockNumber x) @ ''-'' @ str_int (logIndex x)"
      using chain_ops_keyed [OF first(2)] by fastforce
  qed
  from same dist ids show ?thesis by blast
qed

theorem idempotent_ingestion_witness:
  "cache_ok chain0 (block_ts_cache (state0 104))
   \<and> distinct (map mongo_id (ledger world0))
   \<and> start_block (state0 104) \<le> 104
   \<and> start_block (fst (snd (process_batch (sim_env chain0) 104 104 (state0 104) world0))) = 104 + 1
   \<and> ledger (snd (snd (process_batch (sim_env chain0) 104 104 (state0 104) world0))) = [doc_out]
   \<and> ledger (snd (snd (process_batch (sim_env chain0) 104 104 (state0 104)
               (world0\<lparr>ledger := [doc_out], rpc_faults := [True]\<rparr>)))) = [doc_out]
   \<and> mongo_id doc_out = str_int (blockNumber doc_out) @ ''-'' @ str_int (logIndex doc_out)"
proof -
  let ?X = "process_batch (sim_env chain0) 104 104 (state0 104) world0"
  let ?w2 = "world0\<lparr>ledger := [doc_out], rpc_faults := [True]\<rparr>"
  let ?Y = "process_batch (sim_env chain0) 104 104 (state0 104) ?w2"
  have h1: "cache_ok chain0 (block_ts_cache (state0 104))"
    by (simp add: cache_ok_def state0_def)
  have h3: "distinct (map mongo_id (ledger world0))"
    by (simp add: world0_def)
  have h4: "?X = (fst ?X, fst (snd ?X), snd (snd ?X))" by simp
  have h5: "start_block (state0 104) \<le> 104" by (simp add: state0_def)
  have h6: "start_block (fst (snd ?X)) = 104 + 1" by code_simp
  have v: "ledger (snd (snd ?X)) = [doc_out]" by code_simp
  have h7: "ledger ?w2 = ledger (snd (snd ?X))" using v by simp
  have h8: "?Y = (fst ?Y, fst (snd ?Y), snd (snd ?Y))" by simp
  note r = idempotent_ingestion [OF h1 h1 h3 h4 h5 h6 h7 h8]
  have "ledger (snd (snd ?Y)) = [doc_out]" using r v by simp
  moreover have "mongo_id doc_out = str_int (blockNumber doc_out) @ ''-'' @ str_int (logIndex doc_out)"
    using r v by (simp add: world0_def)
  ultimately show ?thesis using h1 h3 h5 h6 v by blast
qed

subsection \<open>The records of a batch\<close>

lemma build_doc_record_id:
  "build_doc env it txd ts = Inr d \<Longrightarrow> mongo_id d = record_id (item_data it)"
  by (auto simp: build_doc_def record_id_def Let_def
      split: sum.splits prod.splits if_splits option.splits)

lemma chain_op_record:
  assumes "chain_op c it = Some (UpdateOne k d u)"
  shows "k = record_id (item_data it) \<and> mongo_id d = k \<and> u
         \<and> (\<exists>t (blk::block). build_doc (sim_env c) it (Some t) (block_timestamp blk) = Inr d)"
proof (cases "map_of (chain_txs c) (hex (log_transactionHash (item_data it)))")
  case None
  then show ?thesis using assms by (simp add: chain_op_def)
next
  case t: (Some t)
  show ?thesis
  proof (cases "map_of (chain_blocks c) (log_blockNumber (item_data it))")
    case None
    then show ?thesis using assms t by (simp add: chain_op_def)
  next
    case blk: (Some blk)
    show ?thesis
    proof (cases "build_doc (sim_env c) it (Some t) (block_timestamp blk)")
      case (Inl e)
      then show ?thesis using assms t blk by (simp add: chain_op_def)
    next
      case (Inr d')
      then have "d' = d" "k = mongo_id d" "u" using assms t blk by (auto simp: chain_op_def)
      then have e: "d' = d" and k: "k = mongo_id d" and u: "u" by simp_all
      have b: "build_doc (sim_env c) it (Some t) (block_timestamp blk) = Inr d"
        using Inr e by simp
      have "\<exists>t (blk::block). build_doc (sim_env c) it (Some t) (block_timestamp blk) = Inr d"
        using b by blast
      then show ?thesis using k u build_doc_record_id [OF b] by simp
    qed
  qed
qed

lemma classify_log_item:
  "classify_log env l = Inr (Some (k, it)) \<Longrightarrow> k = doc_id l \<and> item_data it = l"
  by (auto simp: classify_log_def Let_def split: if_splits sum.splits)

lemma set_AList_update:
  "set (AList.update k v al) \<subseteq> insert (k, v) (set al)"
  by (induction al) auto

lemma classify_logs_entries:
  "classify_logs env logs docs0 = Inr docs \<Longrightarrow> (k, it) \<in> set docs \<Longrightarrow>
     (k, it) \<in> set docs0 \<or> (\<exists>l\<in>set logs. classify_log env l = Inr (Some (k, it)))"
proof (induction logs arbitrary: docs0)
  case Nil
  then show ?case by simp
next
  case (Cons x xs)
  show ?case
  proof (cases "classify_log env x")
    case (Inl e)
    then show ?thesis using Cons.prems by simp
  next
    case (Inr res)
    show ?thesis
    proof (cases res)
      case None
      then show ?thesis using Cons Inr by auto
    next
      case (Some p)
      obtain k' it' where p: "p = (k', it')" by (cases p)
      have "classify_logs env xs (AList.update k' it' docs0) = Inr docs"
        using Cons.prems(1) Inr Some p by simp
      from Cons.IH [OF this Cons.prems(2)]
      have "(k, it) \<in> set (AList.update k' it' docs0)
            \<or> (\<exists>l\<in>set xs. classify_log env l = Inr (Some (k, it)))" .
      moreover have "set (AList.update k' it' docs0) \<subseteq> insert (k', it') (set docs0)"
        by (rule set_AList_update)
      ultimately show ?thesis using Inr Some p by auto
    qed
  qed
qed

lemma classify_logs_keys_grow:
  "classify_logs env logs docs0 = Inr docs \<Longrightarrow> fst ` set docs0 \<subseteq> fst ` set docs"
proof (induction logs arbitrary: docs0)
  case Nil
  then show ?case by simp
next
  case (Cons x xs)
  show ?case
  proof (cases "classify_log env x")
    case (Inl e)
    then show ?thesis using Cons.prems by simp
  next
    case (Inr res)
    show ?thesis
    proof (cases res)
      case None
      then show ?thesis using Cons Inr by auto
    next
      case (Some p)
      obtain k' it' where p: "p = (k', it')" by (cases p)
      have "classify_logs env xs (AList.update k' it' docs0) = Inr docs"
        using Cons.prems(1) Inr Some p by simp
      from Cons.IH [OF this] show ?thesis by (auto simp: dom_update)
    qed
  qed
qed

lemma classify_logs_has_key:
  "classify_logs env logs docs0 = Inr docs \<Longrightarrow> l \<in> set logs \<Longrightarrow>
     classify_log env l = Inr (Some (k, it)) \<Longrightarrow> k \<in> fst ` set docs"
proof (induction logs arbitrary: docs0)
  case Nil
  then show ?case by simp
next
  case (Cons x xs)
  show ?case
  proof (cases "classify_log env x")
    case (Inl e)
    then show ?thesis using Cons.prems by simp
  next
    case (Inr res)
    show ?thesis
    proof (cases res)
      case None
      then have "l \<in> set xs" using Cons.prems Inr by auto
      then show ?thesis using Cons None Inr by auto
    next
      case (Some p)
      obtain k' it' where p: "p = (k', it')" by (cases p)
      have rest: "classify_logs env xs (AList.update k' it' docs0) = Inr docs"
        using Cons.prems(1) Inr Some p by simp
      show ?thesis
      proof (cases "l = x")
        case True
        then have "k' = k" using Cons.prems(3) Inr Some p by simp
        then have "k \<in> fst ` set (AList.update k' it' docs0)" by (simp add: dom_update)
        then show ?thesis using classify_logs_keys_grow [OF rest] by blast
      next
        case False
        then have "l \<in> set xs" using Cons.prems(2) by simp
        from Cons.IH [OF rest this Cons.prems(3)] show ?thesis .
      qed
    qed
  qed
qed

lemma dom_last_write:
  "k \<in> dom (last_write ops) \<longleftrightarrow> (\<exists>d u. UpdateOne k d u \<in> set ops)"
proof (induction ops rule: rev_induct)
  case Nil
  then show ?case by (simp add: last_write_def)
next
  case (snoc x xs)
  obtain k' d' u' where x: "x = UpdateOne k' d' u'" by (cases x)
  show ?case
  proof (cases "k = k'")
    case True
    then show ?thesis unfolding x last_write_snoc by auto
  next
    case False
    then have "k \<in> dom (last_write (xs @ [x])) \<longleftrightarrow> k \<in> dom (last_write xs)"
      unfolding x last_write_snoc by auto
    then show ?thesis using snoc False x by auto
  qed
qed

lemma sim_get_logs_mem:
  "l \<in> set (sim_get_logs c a b ts) \<longleftrightarrow>
     l \<in> set (chain_logs c) \<and> a \<le> log_blockNumber l \<and> log_blockNumber l \<le> b
     \<and> log_topics l \<noteq> [] \<and> hex (log_topics l ! 0) \<in> set ts"
  by (auto simp: sim_get_logs_def)

lemma ops_of_docs:
  assumes "map Some ops = map (chain_op c \<circ> snd) docs"
  shows "op \<in> set ops \<longleftrightarrow> (\<exists>p\<in>set docs. chain_op c (snd p) = Some op)"
proof -
  have "Some op \<in> set (map Some ops) \<longleftrightarrow> Some op \<in> set (map (chain_op c \<circ> snd) docs)"
    by (simp only: assms)
  moreover have "Some op \<in> set (map Some ops) \<longleftrightarrow> op \<in> set ops" by auto
  moreover have "Some op \<in> set (map (chain_op c \<circ> snd) docs)
                   \<longleftrightarrow> (\<exists>p\<in>set docs. chain_op c (snd p) = Some op)"
    by force
  ultimately show ?thesis by blast
qed

lemma distinct_map_eq:
  "distinct (map f xs) \<Longrightarrow> x \<in> set xs \<Longrightarrow> y \<in> set xs \<Longrightarrow> f x = f y \<Longrightarrow> x = y"
  by (auto simp: distinct_map dest: inj_onD)

lemma record_only_if_accepted:
  assumes run: "process_batch (sim_env c) a b st w = (r, st', w')"
    and cache: "cache_ok c (block_ts_cache st)"
    and ids: "distinct (map record_id (chain_logs c))"
    and l: "l \<in> set (chain_logs c)"
    and fresh: "record_id l \<notin> mongo_id ` set (ledger w)"
    and x: "x \<in> set (ledger w')" "mongo_id x = record_id l"
  shows "\<exists>it t (blk::block).
           classify_log (sim_env c) l = Inr (Some (doc_id l, it))
           \<and> build_doc (sim_env c) it (Some t) (block_timestamp blk) = Inr x"
proof -
  let ?logs = "sim_get_logs c a b [TRANSFER_TOPIC, NATIVE_RON_TRANSFER_TOPIC]"
  have new: "x \<notin> set (ledger w)" using fresh x(2) by force
  then have "ledger w' \<noteq> ledger w" using x(1) by auto
  with process_batch_sim [OF run cache] obtain docs ops where
    docs: "classify_logs (sim_env c) ?logs [] = Inr docs"
    and ops: "map Some ops = map (chain_op c \<circ> snd) docs"
    and led: "ledger w' = bulk_write_apply ops (ledger w)"
    by auto
  from set_bulk [OF x(1) [unfolded led]] new obtain k d u where
    op: "UpdateOne k d u \<in> set ops" and xd: "x = d\<lparr>mongo_id := k\<rparr>"
    by auto
  from op ops_of_docs [OF ops] obtain p where
    p: "p \<in> set docs" "chain_op c (snd p) = Some (UpdateOne k d u)"
    by blast
  obtain k' it where pk: "p = (k', it)" by (cases p)
  from chain_op_record [of c it k d u] p(2) pk obtain t and blk :: block where
    k: "k = record_id (item_data it)" "mongo_id d = k"
    and b: "build_doc (sim_env c) it (Some t) (block_timestamp blk) = Inr d"
    by auto
  have xeq: "x = d" using xd k(2) by simp
  from classify_logs_entries [OF docs, of k' it] p(1) pk obtain l' where
    l': "l' \<in> set ?logs" "classify_log (sim_env c) l' = Inr (Some (k', it))"
    by auto
  have it: "k' = doc_id l'" "item_data it = l'" using classify_log_item [OF l'(2)] by simp_all
  have "l' \<in> set (chain_logs c)" using l'(1) by (simp add: sim_get_logs_mem)
  moreover have "record_id l' = record_id l" using k it(2) xeq x(2) by simp
  ultimately have "l' = l" using ids l by (metis distinct_map_eq)
  then have "classify_log (sim_env c) l = Inr (Some (doc_id l, it))" using l'(2) it(1) by simp
  then show ?thesis using b xeq by blast
qed

lemma accepted_record_written:
  assumes run: "process_batch (sim_env c) a b st w = (r, st', w')"
    and cache: "cache_ok c (block_ts_cache st)"
    and wrote: "start_block st \<le> b" "start_block st' = b + 1"
    and keys: "distinct (map doc_id (chain_logs c))"
    and l: "l \<in> set (sim_get_logs c a b [TRANSFER_TOPIC, NATIVE_RON_TRANSFER_TOPIC])"
    and acc: "classify_log (sim_env c) l = Inr (Some p)"
  shows "\<exists>x\<in>set (ledger w'). mongo_id x = record_id l"
proof -
  let ?logs = "sim_get_logs c a b [TRANSFER_TOPIC, NATIVE_RON_TRANSFER_TOPIC]"
  from process_batch_sim [OF run cache] wrote obtain docs ops where
    docs: "classify_logs (sim_env c) ?logs [] = Inr docs"
    and ops: "map Some ops = map (chain_op c \<circ> snd) docs"
    and led: "ledger w' = bulk_write_apply ops (ledger w)"
    by auto
  obtain k it where p: "p = (k, it)" by (cases p)
  have k: "k = doc_id l" using classify_log_item acc p by blast
  from classify_logs_has_key [OF docs l acc [unfolded p]] obtain it' where
    e: "(k, it') \<in> set docs" by auto
  from classify_logs_entries [OF docs e] obtain l' where
    l': "l' \<in> set ?logs" "classify_log (sim_env c) l' = Inr (Some (k, it'))"
    by auto
  have it': "k = doc_id l'" "item_data it' = l'" using classify_log_item [OF l'(2)] by simp_all
  have "l' \<in> set (chain_logs c)" "l \<in> set (chain_logs c)"
    using l'(1) l by (simp_all add: sim_get_logs_mem)
  then have "l' = l" using keys k it'(1) by (metis distinct_map_eq)
  have "Some ` set ops = (chain_op c \<circ> snd) ` set docs"
    using ops by (metis list.set_map)
  then obtain op where op: "op \<in> set ops" "chain_op c it' = Some op"
    using e by (metis (no_types, lifting) comp_apply imageE imageI snd_conv)
  obtain k2 d u where opd: "op = UpdateOne k2 d u" by (cases op)
  have k2: "k2 = record_id l"
    using chain_op_record [OF op(2) [unfolded opd]] it'(2) \<open>l' = l\<close> by simp
  have keyed: "\<forall>u\<in>set ops. keyed u" using chain_ops_keyed [OF ops] by blast
  have "record_id l \<in> dom (last_write ops)"
    using op(1) opd k2 by (auto simp: dom_last_write)
  then have "record_id l \<in> mongo_id ` set (ledger w')"
    unfolding led bulk_ids [OF keyed] by simp
  then show ?thesis by force
qed

lemma no_data_no_record:
  "log_data (item_data it) = [] \<Longrightarrow> build_doc env it txd ts \<noteq> Inr d"
proof
  assume e: "log_data (item_data it) = []" and b: "build_doc env it txd ts = Inr d"
  from build_doc_amounts [OF b] obtain n where "int16 (hex (log_data (item_data it))) = Inr n"
    by blast
  then show False using e by (simp add: int16_hex)
qed

text \<open>
  C4, as the code has it. A log of the chain whose first topic is the ERC-20 transfer
  signature enters the batch map iff exactly one of its from and to addresses is in the
  treasury set. A batch writes a record under the \<open>_id\<close> of the log only if the log
  entered the map, so a transfer inside the treasury or outside it has no record; when
  the batch has been written, with the cursor moved past it, every log that entered the
  map has its record; and the record is outgoing iff the from address is in the set.
  The logs of the chain have distinct keys and distinct \<open>_id\<close>s, and the collection has
  no document under the \<open>_id\<close> of the log before the batch.
\<close>

theorem erc20_record_iff_one_side:
  assumes "cache_ok c (block_ts_cache st)"
    and "distinct (map doc_id (chain_logs c))"
    and "distinct (map record_id (chain_logs c))"
    and "l \<in> set (chain_logs c)"
    and "a \<le> log_blockNumber l" and "log_blockNumber l \<le> b"
    and "record_id l \<notin> mongo_id ` set (ledger w)"
    and "3 \<le> length (log_topics l)"
    and "hex (log_topics l ! 0) = TRANSFER_TOPIC"
    and "20 \<le> length (log_topics l ! 1)" and "20 \<le> length (log_topics l ! 2)"
    and "to_checksum_address (sim_env c) (hex (last_chars 20 (log_topics l ! 1))) = Inr frm"
    and "to_checksum_address (sim_env c) (hex (last_chars 20 (log_topics l ! 2))) = Inr to"
    and "process_batch (sim_env c) a b st w = (r, st', w')"
  shows "classify_log (sim_env c) l =
           (if (frm \<in> TREASURY_SET (sim_env c)) \<noteq> (to \<in> TREASURY_SET (sim_env c))
            then Inr (Some (doc_id l, \<lparr>item_type = erc20_log, item_data = l\<rparr>))
            else Inr None)
         \<and> ((\<exists>d\<in>set (ledger w'). mongo_id d = record_id l)
               \<longrightarrow> (frm \<in> TREASURY_SET (sim_env c)) \<noteq> (to \<in> TREASURY_SET (sim_env c)))
         \<and> (start_block st \<le> b \<and> start_block st' = b + 1
               \<longrightarrow> ((\<exists>d\<in>set (ledger w'). mongo_id d = record_id l)
                     \<longleftrightarrow> (frm \<in> TREASURY_SET (sim_env c)) \<noteq> (to \<in> TREASURY_SET (sim_env c))))
         \<and> (\<forall>d\<in>set (ledger w'). mongo_id d = record_id l
               \<longrightarrow> isOutgoing d = (frm \<in> TREASURY_SET (sim_env c)))"
proof -
  let ?one = "(frm \<in> TREASURY_SET (sim_env c)) \<noteq> (to \<in> TREASURY_SET (sim_env c))"
  let ?it = "\<lparr>item_type = erc20_log, item_data = l\<rparr>"
  note acc = erc20_accepted [OF assms(8-13)]
  have cl: "classify_log (sim_env c) l = (if ?one then Inr (Some (doc_id l, ?it)) else Inr None)"
    using acc by blast
  have built: "\<And>txd ts d. build_doc (sim_env c) ?it txd ts = Inr d
                 \<Longrightarrow> isOutgoing d = (frm \<in> TREASURY_SET (sim_env c))"
    using acc by blast
  have lin: "l \<in> set (sim_get_logs c a b [TRANSFER_TOPIC, NATIVE_RON_TRANSFER_TOPIC])"
    using assms(4,5,6,8,9) by (auto simp: sim_get_logs_mem)
  have only: "\<And>x. x \<in> set (ledger w') \<Longrightarrow> mongo_id x = record_id l
                 \<Longrightarrow> ?one \<and> isOutgoing x = (frm \<in> TREASURY_SET (sim_env c))"
  proof -
    fix x assume x: "x \<in> set (ledger w')" "mongo_id x = record_id l"
    from record_only_if_accepted [OF assms(14) assms(1) assms(3) assms(4) assms(7) x]
    obtain it t and blk :: block where
      i: "classify_log (sim_env c) l = Inr (Some (doc_id l, it))"
      and b: "build_doc (sim_env c) it (Some t) (block_timestamp blk) = Inr x"
      by blast
    have one: ?one using i cl by (simp split: if_splits)
    then have "it = ?it" using i cl by simp
    then show "?one \<and> isOutgoing x = (frm \<in> TREASURY_SET (sim_env c))"
      using one built b by blast
  qed
  have written: "start_block st \<le> b \<Longrightarrow> start_block st' = b + 1 \<Longrightarrow> ?one
                   \<Longrightarrow> \<exists>x\<in>set (ledger w'). mongo_id x = record_id l"
  proof -
    assume w: "start_block st \<le> b" "start_block st' = b + 1" and one: ?one
    have "classify_log (sim_env c) l = Inr (Some (doc_id l, ?it))" using cl one by simp
    from accepted_record_written [OF assms(14) assms(1) w assms(2) lin this]
    show ?thesis .
  qed
  show ?thesis using cl only written by blast
qed

text \<open>
  C7, as the code has it. A log of the chain whose first topic is the native transfer
  signature enters the batch map iff its emitting address is in the treasury set. A
  batch writes a record under the \<open>_id\<close> of the log only if the log entered the map;
  when the batch has been written, with the cursor moved past it, every log that entered
  the map has its record; and the record has the zero address as token, is never
  outgoing, and has the emitting address as receiver. The logs of the chain have
  distinct keys and distinct \<open>_id\<close>s, and the collection has no document under the
  \<open>_id\<close> of the log before the batch.
\<close>

theorem native_record_iff_emitter:
  assumes "cache_ok c (block_ts_cache st)"
    and "distinct (map doc_id (chain_logs c))"
    and "distinct (map record_id (chain_logs c))"
    and "l \<in> set (chain_logs c)"
    and "a \<le> log_blockNumber l" and "log_blockNumber l \<le> b"
    and "record_id l \<notin> mongo_id ` set (ledger w)"
    and "log_topics l \<noteq> []"
    and "hex (log_topics l ! 0) = NATIVE_RON_TRANSFER_TOPIC"
    and "to_checksum_address (sim_env c) (log_address l) = Inr log_emitter"
    and "process_batch (sim_env c) a b st w = (r, st', w')"
  shows "classify_log (sim_env c) l =
           (if log_emitter \<in> TREASURY_SET (sim_env c)
            then Inr (Some (doc_id l, \<lparr>item_type = native_ron_log, item_data = l\<rparr>))
            else Inr None)
         \<and> ((\<exists>d\<in>set (ledger w'). mongo_id d = record_id l)
               \<longrightarrow> log_emitter \<in> TREASURY_SET (sim_env c))
         \<and> (start_block st \<le> b \<and> start_block st' = b + 1
               \<longrightarrow> ((\<exists>d\<in>set (ledger w'). mongo_id d = record_id l)
                     \<longleftrightarrow> log_emitter \<in> TREASURY_SET (sim_env c)))
         \<and> (\<forall>d\<in>set (ledger w'). mongo_id d = record_id l
               \<longrightarrow> tokenAddress d = ZERO_ADDRESS \<and> \<not> isOutgoing d \<and> toAddress d = log_emitter)"
proof -
  let ?in = "log_emitter \<in> TREASURY_SET (sim_env c)"
  let ?it = "\<lparr>item_type = native_ron_log, item_data = l\<rparr>"
  note acc = native_accepted [OF assms(8-10)]
  have cl: "classify_log (sim_env c) l = (if ?in then Inr (Some (doc_id l, ?it)) else Inr None)"
    using acc by blast
  have built: "\<And>txd ts d. build_doc (sim_env c) ?it txd ts = Inr d
                 \<Longrightarrow> tokenAddress d = ZERO_ADDRESS \<and> \<not> isOutgoing d \<and> toAddress d = log_emitter"
    using acc by blast
  have lin: "l \<in> set (sim_get_logs c a b [TRANSFER_TOPIC, NATIVE_RON_TRANSFER_TOPIC])"
    using assms(4,5,6,8,9) by (auto simp: sim_get_logs_mem)
  have only: "\<And>x. x \<in> set (ledger w') \<Longrightarrow> mongo_id x = record_id l
                 \<Longrightarrow> ?in \<and> tokenAddress x = ZERO_ADDRESS \<and> \<not> isOutgoing x
                     \<and> toAddress x = log_emitter"
  proof -
    fix x assume x: "x \<in> set (ledger w')" "mongo_id x = record_id l"
    from record_only_if_accepted [OF assms(11) assms(1) assms(3) assms(4) assms(7) x]
    obtain it t and blk :: block where
      i: "classify_log (sim_env c) l = Inr (Some (doc_id l, it))"
      and b: "build_doc (sim_env c) it (Some t) (block_timestamp blk) = Inr x"
      by blast
    have inn: ?in using i cl by (simp split: if_splits)
    then have "it = ?it" using i cl by simp
    then show "?in \<and> tokenAddress x = ZERO_ADDRESS \<and> \<not> isOutgoing x \<and> toAddress x = log_emitter"
      using inn built b by blast
  qed
  have written: "start_block st \<le> b \<Longrightarrow> start_block st' = b + 1 \<Longrightarrow> ?in
                   \<Longrightarrow> \<exists>x\<in>set (ledger w'). mongo_id x = record_id l"
  proof -
    assume w: "start_block st \<le> b" "start_block st' = b + 1" and inn: ?in
    have "classify_log (sim_env c) l = Inr (Some (doc_id l, ?it))" using cl inn by simp
    from accepted_record_written [OF assms(11) assms(1) w assms(2) lin this]
    show ?thesis .
  qed
  show ?thesis using cl only written by blast
qed

theorem erc20_record_iff_one_side_witness:
  "cache_ok chain0 (block_ts_cache (state0 104))
   \<and> distinct (map doc_id (chain_logs chain0))
   \<and> distinct (map record_id (chain_logs chain0))
   \<and> log_out \<in> set (chain_logs chain0)
   \<and> 104 \<le> log_blockNumber log_out \<and> log_blockNumber log_out \<le> 104
   \<and> record_id log_out \<notin> mongo_id ` set (ledger world0)
   \<and> 3 \<le> length (log_topics log_out)
   \<and> hex (log_topics log_out ! 0) = TRANSFER_TOPIC
   \<and> 20 \<le> length (log_topics log_out ! 1) \<and> 20 \<le> length (log_topics log_out ! 2)
   \<and> to_checksum_address (sim_env chain0) (hex (last_chars 20 (log_topics log_out ! 1)))
       = Inr ''0x245db945c485b68fdc429e4f7085a1761aa4d45d''
   \<and> to_checksum_address (sim_env chain0) (hex (last_chars 20 (log_topics log_out ! 2)))
       = Inr ''0x1111111111111111111111111111111111111111''
   \<and> start_block (state0 104) \<le> 104
   \<and> start_block (fst (snd (process_batch (sim_env chain0) 104 104 (state0 104) world0))) = 104 + 1
   \<and> ledger (snd (snd (process_batch (sim_env chain0) 104 104 (state0 104) world0))) = [doc_out]
   \<and> mongo_id doc_out = record_id log_out
   \<and> classify_log (sim_env chain0) log_out
       = Inr (Some (doc_id log_out, \<lparr>item_type = erc20_log, item_data = log_out\<rparr>))
   \<and> isOutgoing doc_out"
proof -
  let ?X = "process_batch (sim_env chain0) 104 104 (state0 104) world0"
  have h1: "cache_ok chain0 (block_ts_cache (state0 104))"
    by (simp add: cache_ok_def state0_def)
  have h2: "distinct (map doc_id (chain_logs chain0))" by (simp add: chain0_def)
  have h3: "distinct (map record_id (chain_logs chain0))" by (simp add: chain0_def)
  have h4: "log_out \<in> set (chain_logs chain0)" by (simp add: chain0_def)
  have h5: "104 \<le> log_blockNumber log_out" and h6: "log_blockNumber log_out \<le> 104"
    by (simp_all add: log_out_def)
  have h7: "record_id log_out \<notin> mongo_id ` set (ledger world0)" by (simp add: world0_def)
  have h8: "3 \<le> length (log_topics log_out)" by (simp add: log_out_def)
  have h9: "hex (log_topics log_out ! 0) = TRANSFER_TOPIC" by code_simp
  have h10: "20 \<le> length (log_topics log_out ! 1)" by code_simp
  have h11: "20 \<le> length (log_topics log_out ! 2)" by code_simp
  have h12: "to_checksum_address (sim_env chain0) (hex (last_chars 20 (log_topics log_out ! 1)))
       = Inr ''0x245db945c485b68fdc429e4f7085a1761aa4d45d''" by code_simp
  have h13: "to_checksum_address (sim_env chain0) (hex (last_chars 20 (log_topics log_out ! 2)))
       = Inr ''0x1111111111111111111111111111111111111111''" by code_simp
  have h14: "?X = (fst ?X, fst (snd ?X), snd (snd ?X))" by simp
  have w1: "start_block (state0 104) \<le> 104" by (simp add: state0_def)
  have w2: "start_block (fst (snd ?X)) = 104 + 1" by code_simp
  have v: "ledger (snd (snd ?X)) = [doc_out]" by code_simp
  have i: "mongo_id doc_out = record_id log_out" by code_simp
  note r = erc20_record_iff_one_side [OF h1 h2 h3 h4 h5 h6 h7 h8 h9 h10 h11 h12 h13 h14]
  have c: "classify_log (sim_env chain0) log_out
       = Inr (Some (doc_id log_out, \<lparr>item_type = erc20_log, item_data = log_out\<rparr>))"
    using r by (simp add: sim_treasury)
  have o: "isOutgoing doc_out"
    using r v i by (simp add: sim_treasury)
  from h1 h2 h3 h4 h5 h6 h7 h8 h9 h10 h11 h12 h13 w1 w2 v i c o show ?thesis by blast
qed

theorem erc20_record_counterexample:
  "hex (log_topics log_nft ! 0) = TRANSFER_TOPIC
   \<and> to_checksum_address (sim_env chain_721) (hex (last_chars 20 (log_topics log_nft ! 1)))
       = Inr ''0x1111111111111111111111111111111111111111''
   \<and> to_checksum_address (sim_env chain_721) (hex (last_chars 20 (log_topics log_nft ! 2)))
       = Inr ''0x245db945c485b68fdc429e4f7085a1761aa4d45d''
   \<and> ''0x1111111111111111111111111111111111111111'' \<notin> TREASURY_SET (sim_env chain_721)
   \<and> ''0x245db945c485b68fdc429e4f7085a1761aa4d45d'' \<in> TREASURY_SET (sim_env chain_721)
   \<and> build_doc (sim_env chain_721) \<lparr>item_type = erc20_log, item_data = log_nft\<rparr> (Some tx_call)
       1700000000 = Inl ValueError
   \<and> start_block (fst (cycles 2 (sim_env chain_721) (state0 104) world0)) = 104
   \<and> ledger (snd (cycles 2 (sim_env chain_721) (state0 104) world0)) = []"
  by code_simp

theorem native_record_iff_emitter_witness:
  "cache_ok chain_native (block_ts_cache (state0 104))
   \<and> distinct (map doc_id (chain_logs chain_native))
   \<and> distinct (map record_id (chain_logs chain_native))
   \<and> log_native \<in> set (chain_logs chain_native)
   \<and> 104 \<le> log_blockNumber log_native \<and> log_blockNumber log_native \<le> 104
   \<and> record_id log_native \<notin> mongo_id ` set (ledger world0)
   \<and> log_topics log_native \<noteq> []
   \<and> hex (log_topics log_native ! 0) = NATIVE_RON_TRANSFER_TOPIC
   \<and> to_checksum_address (sim_env chain_native) (log_address log_native)
       = Inr ''0x245db945c485b68fdc429e4f7085a1761aa4d45d''
   \<and> start_block (state0 104) \<le> 104
   \<and> start_block (fst (snd (process_batch (sim_env chain_native) 104 104 (state0 104) world0)))
       = 104 + 1
   \<and> ledger (snd (snd (process_batch (sim_env chain_native) 104 104 (state0 104) world0)))
       = [doc_native]
   \<and> mongo_id doc_native = record_id log_native
   \<and> classify_log (sim_env chain_native) log_native
       = Inr (Some (doc_id log_native, \<lparr>item_type = native_ron_log, item_data = log_native\<rparr>))
   \<and> tokenAddress doc_native = ZERO_ADDRESS \<and> \<not> isOutgoing doc_native"
proof -
  let ?X = "process_batch (sim_env chain_native) 104 104 (state0 104) world0"
  have h1: "cache_ok chain_native (block_ts_cache (state0 104))"
    by (simp add: cache_ok_def state0_def)
  have h2: "distinct (map doc_id (chain_logs chain_native))" by (simp add: chain_native_def)
  have h3: "distinct (map record_id (chain_logs chain_native))" by (simp add: chain_native_def)
  have h4: "log_native \<in> set (chain_logs chain_native)" by (simp add: chain_native_def)
  have h5: "104 \<le> log_blockNumber log_native" and h6: "log_blockNumber log_native \<le> 104"
    by (simp_all add: log_native_def)
  have h7: "record_id log_native \<notin> mongo_id ` set (ledger world0)" by (simp add: world0_def)
  have h8: "log_topics log_native \<noteq> []" by (simp add: log_native_def)
  have h9: "hex (log_topics log_native ! 0) = NATIVE_RON_TRANSFER_TOPIC" by code_simp
  have h10: "to_checksum_address (sim_env chain_native) (log_address log_native)
       = Inr ''0x245db945c485b68fdc429e4f7085a1761aa4d45d''" by code_simp
  have h11: "?X = (fst ?X, fst (snd ?X), snd (snd ?X))" by simp
  have w1: "start_block (state0 104) \<le> 104" by (simp add: state0_def)
  have w2: "start_block (fst (snd ?X)) = 104 + 1" by code_simp
  have v: "ledger (snd (snd ?X)) = [doc_native]" by code_simp
  have i: "mongo_id doc_native = record_id log_native" by code_simp
  note r = native_record_iff_emitter [OF h1 h2 h3 h4 h5 h6 h7 h8 h9 h10 h11]
  have c: "classify_log (sim_env chain_native) log_native
       = Inr (Some (doc_id log_native, \<lparr>item_type = native_ron_log, item_data = log_native\<rparr>))"
    using r by (simp add: sim_treasury)
  have o: "tokenAddress doc_native = ZERO_ADDRESS \<and> \<not> isOutgoing doc_native"
    using r v i by simp
  from h1 h2 h3 h4 h5 h6 h7 h8 h9 h10 w1 w2 v i c o show ?thesis by blast
qed

theorem native_record_counterexample:
  "hex (log_topics log_native ! 0) = NATIVE_RON_TRANSFER_TOPIC
   \<and> to_checksum_address (sim_env chain_lag) (log_address log_native)
       = Inr ''0x245db945c485b68fdc429e4f7085a1761aa4d45d''
   \<and> ''0x245db945c485b68fdc429e4f7085a1761aa4d45d'' \<in> TREASURY_SET (sim_env chain_lag)
   \<and> fst (fetch_transaction (sim_env chain_lag) (hex (log_transactionHash log_native)) world0)
       = Inl (External ''transaction not found'')
   \<and> start_block (fst (cycles 2 (sim_env chain_lag) (state0 104) world0)) = 104
   \<and> ledger (snd (cycles 2 (sim_env chain_lag) (state0 104) world0)) = []"
  by code_simp

end
